theory Spec2Isabelle
  imports Main "HOL-Library.Word"
begin

unbundle bit_operations_syntax

section \<open>Character codec\<close>

text \<open>
  Failures of the source are values: a failed \<open>assert\<close>, the invalid-parameter
  handler of \<open>strcpy_s\<close>, and the use of a pending-response pointer whose ledger
  entry has already been destroyed.
\<close>

datatype error = AssertionFailed | InvalidParameter | DanglingPointer

definition kCharacterCacheSize :: nat where
  "kCharacterCacheSize = 8"

definition kStateMaskToggled :: "16 word" where
  "kStateMaskToggled = 0x01"

definition kStateMaskPressed :: "16 word" where
  "kStateMaskPressed = 0x80"

text \<open>
  \<open>_GetBit(ch, start, end)\<close> is \<open>(ch >> end) & ((1 << (start - end)) - 1)\<close>,
  returned as a \<open>char\<close>.
\<close>

definition GetBit :: "32 word \<Rightarrow> nat \<Rightarrow> nat \<Rightarrow> 8 word" where
  "GetBit ch start end' = ucast (drop_bit end' ch AND (push_bit (start - end') 1 - 1))"

definition ConvertChar32ToUtf8 :: "32 word \<Rightarrow> error + 8 word list" where
  "ConvertChar32ToUtf8 ch =
     (if \<not> ch \<le> 0x10FFFF then Inl AssertionFailed
      else if ch \<le> 0x007F then Inr [ucast ch]
      else if ch \<le> 0x07FF then
        Inr [0xC0 + GetBit ch 11 6, 0x80 + GetBit ch 6 0]
      else if ch \<le> 0xFFFF then
        Inr [0xE0 + GetBit ch 16 12, 0x80 + GetBit ch 12 6, 0x80 + GetBit ch 6 0]
      else
        Inr [0xF0 + GetBit ch 21 18, 0x80 + GetBit ch 18 12, 0x80 + GetBit ch 12 6,
             0x80 + GetBit ch 6 0])"

text \<open>
  A character buffer is modelled by the C string it holds: the bytes before the first
  \<open>'\0'\<close>. \<open>c_str\<close> reads a \<open>std::string\<close> that way, and \<open>strcpy_s\<close> copies it
  when it fits the destination together with its terminator.
\<close>

definition c_str :: "8 word list \<Rightarrow> 8 word list" where
  "c_str bs = takeWhile (\<lambda>b. b \<noteq> 0) bs"

definition strcpy_s :: "nat \<Rightarrow> 8 word list \<Rightarrow> error + 8 word list" where
  "strcpy_s size_in_bytes src =
     (if length src < size_in_bytes then Inr src else Inl InvalidParameter)"

text \<open>
  Member names of the source that end in an underscore (\<open>ConvertUtf32ToUtf8_\<close>,
  \<open>pressingRecords_\<close>, \<open>critical_keys_\<close>, \<open>response_id_\<close>, ...) are written
  without it.
\<close>

definition ConvertUtf32ToUtf8 :: "32 word \<Rightarrow> error + 8 word list" where
  "ConvertUtf32ToUtf8 ch =
     (if ch = 0 then Inr []
      else case ConvertChar32ToUtf8 ch of
             Inl e \<Rightarrow> Inl e
           | Inr result \<Rightarrow> strcpy_s kCharacterCacheSize (c_str result))"

text \<open>
  The UTF-8 encoding as the standard defines it (RFC 3629, section 3), on code point
  numbers: the ranges of one to four bytes and the distribution of the bits, written
  with division and remainder. The standard encodes the characters \<open>U+0000\<close> to
  \<open>U+10FFFF\<close> and prohibits the surrogates \<open>U+D800\<close> to \<open>U+DFFF\<close>: they, and the
  numbers beyond \<open>0x10FFFF\<close>, have no encoding.
\<close>

definition utf8_standard :: "nat \<Rightarrow> nat list option" where
  "utf8_standard cp =
     (if 0xD800 \<le> cp \<and> cp \<le> 0xDFFF then None
      else if cp < 0x80 then Some [cp]
      else if cp < 0x800 then Some [0xC0 + cp div 64, 0x80 + cp mod 64]
      else if cp < 0x10000 then
        Some [0xE0 + cp div 4096, 0x80 + (cp div 64) mod 64, 0x80 + cp mod 64]
      else if cp < 0x110000 then
        Some [0xF0 + cp div 262144, 0x80 + (cp div 4096) mod 64, 0x80 + (cp div 64) mod 64,
              0x80 + cp mod 64]
      else None)"

section \<open>Key identity resolver\<close>

text \<open>
  The static tables and the plane constants are declared outside this file
  (\<open>windowsToPhysicalMap_\<close>, \<open>windowsToLogicalMap_\<close>, \<open>scanCodeToLogicalMap_\<close>,
  \<open>valueMask\<close>, \<open>unicodePlane\<close>, \<open>windowsPlane\<close>), as are \<open>UndeadChar\<close> and the
  operating system's \<open>MapVirtualKey(_, MAPVK_VK_TO_VSC)\<close>: the model takes them as
  parameters. The tables are keyed by 64-bit values; an \<open>int\<close> key is converted with
  sign extension and a \<open>uint16_t\<close> key with zero extension, both injective.
\<close>

record statics =
  windowsToPhysicalMap :: "64 word \<rightharpoonup> 64 word"
  windowsToLogicalMap :: "64 word \<rightharpoonup> 64 word"
  scanCodeToLogicalMap :: "64 word \<rightharpoonup> 64 word"
  valueMask :: "64 word"
  unicodePlane :: "64 word"
  windowsPlane :: "64 word"
  UndeadChar :: "32 word \<Rightarrow> 32 word"
  MapVirtualKey :: "32 word \<Rightarrow> 32 word"

text \<open>Constants of \<open>windows.h\<close>.\<close>

definition VK_PROCESSKEY :: "32 word" where "VK_PROCESSKEY = 0xE5"
definition VK_CAPITAL :: "32 word" where "VK_CAPITAL = 0x14"
definition VK_NUMLOCK :: "32 word" where "VK_NUMLOCK = 0x90"
definition VK_SCROLL :: "32 word" where "VK_SCROLL = 0x91"
definition VK_LSHIFT :: "32 word" where "VK_LSHIFT = 0xA0"
definition VK_RSHIFT :: "32 word" where "VK_RSHIFT = 0xA1"
definition VK_LCONTROL :: "32 word" where "VK_LCONTROL = 0xA2"
definition VK_RCONTROL :: "32 word" where "VK_RCONTROL = 0xA3"
definition WM_KEYDOWN :: "32 word" where "WM_KEYDOWN = 0x100"
definition WM_KEYUP :: "32 word" where "WM_KEYUP = 0x101"
definition WM_SYSKEYDOWN :: "32 word" where "WM_SYSKEYDOWN = 0x104"
definition WM_SYSKEYUP :: "32 word" where "WM_SYSKEYUP = 0x105"

definition isEasciiPrintable :: "32 word \<Rightarrow> bool" where
  "isEasciiPrintable codeUnit \<longleftrightarrow>
     (sint codeUnit \<le> 0x7f \<and> sint codeUnit \<ge> 0x20) \<or>
     (sint codeUnit \<le> 0xff \<and> sint codeUnit \<ge> 0x80)"

definition toLower :: "64 word \<Rightarrow> 64 word" where
  "toLower n =
     (if n \<ge> 0x41 \<and> n \<le> 0x5a then n - 0x41 + 0x61
      else if n \<ge> 0xc0 \<and> n \<le> 0xde \<and> n \<noteq> 0xf7 then n - 0xc0 + 0xe0
      else n)"

definition normalizeScancode :: "32 word \<Rightarrow> bool \<Rightarrow> 16 word" where
  "normalizeScancode windowsScanCode extended =
     ucast ((windowsScanCode AND 0xff) OR (if extended then 0xe000 else 0))"

definition ApplyPlaneToId :: "statics \<Rightarrow> 64 word \<Rightarrow> 64 word \<Rightarrow> 64 word" where
  "ApplyPlaneToId d id' plane = (id' AND valueMask d) OR plane"

definition GetPhysicalKey :: "statics \<Rightarrow> 32 word \<Rightarrow> bool \<Rightarrow> 64 word" where
  "GetPhysicalKey d scancode extended =
     (case windowsToPhysicalMap d (ucast (normalizeScancode scancode extended)) of
        Some v \<Rightarrow> v
      | None \<Rightarrow> ApplyPlaneToId d (scast scancode) (windowsPlane d))"

definition GetLogicalKey :: "statics \<Rightarrow> 32 word \<Rightarrow> bool \<Rightarrow> 32 word \<Rightarrow> 64 word" where
  "GetLogicalKey d key extended scancode =
     (if key = VK_PROCESSKEY then ucast VK_PROCESSKEY
      else case scanCodeToLogicalMap d (ucast (normalizeScancode scancode extended)) of
        Some v \<Rightarrow> v
      | None \<Rightarrow>
         (case windowsToLogicalMap d (scast key) of
            Some v \<Rightarrow> v
          | None \<Rightarrow>
             if isEasciiPrintable key
             then ApplyPlaneToId d (toLower (scast key)) (unicodePlane d)
             else ApplyPlaneToId d (toLower (scast key)) (windowsPlane d)))"

section \<open>Engine state and outbound calls\<close>

datatype FlutterKeyEventType =
  kFlutterKeyEventTypeUp | kFlutterKeyEventTypeDown | kFlutterKeyEventTypeRepeat

text \<open>
  An event record without its size marker and its wall-clock timestamp. The character
  is the C string the \<open>character\<close> pointer refers to.
\<close>

record FlutterKeyEvent =
  type :: FlutterKeyEventType
  physical :: "64 word"
  logical :: "64 word"
  character :: "8 word list"
  synthesized :: bool

record CriticalKey =
  physical_key :: "64 word"
  logical_key :: "64 word"
  check_pressed :: bool
  check_toggled :: bool
  toggled_on :: bool

text \<open>
  What the engine does to the outside is recorded in order. \<open>Sent ev None\<close> is a call
  of \<open>perform_send_event_\<close> with a null callback and null user data;
  \<open>Sent ev (Some rid)\<close> is one with \<open>HandleResponse\<close> and the pointer to the pending
  response stored under \<open>rid\<close>. \<open>Called cb handled\<close> is a call of the caller-supplied
  callback \<open>cb\<close> (callbacks are told apart by a number).
\<close>

datatype effect = Sent FlutterKeyEvent "64 word option" | Called nat bool

text \<open>
  \<open>critical_keys_\<close> is an ordered map: the list holds its entries in increasing key
  order, the order in which the two synchronization loops visit them.
\<close>

record engine =
  pressingRecords :: "64 word \<rightharpoonup> 64 word"
  critical_keys :: "(32 word \<times> CriticalKey) list"
  response_id :: "64 word"
  pending_responses :: "64 word \<rightharpoonup> nat"
  sent_any_events :: bool
  trace :: "effect list"

definition SendEvent :: "FlutterKeyEvent \<Rightarrow> 64 word option \<Rightarrow> engine \<Rightarrow> engine" where
  "SendEvent event user_data s =
     s\<lparr>sent_any_events := True, trace := trace s @ [Sent event user_data]\<rparr>"

definition empty_character :: "8 word list" where
  "empty_character = []"

definition SynthesizeSimpleEvent ::
  "FlutterKeyEventType \<Rightarrow> 64 word \<Rightarrow> 64 word \<Rightarrow> 8 word list \<Rightarrow> FlutterKeyEvent" where
  "SynthesizeSimpleEvent ty phys logi chr =
     \<lparr>type = ty, physical = phys, logical = logi, character = chr, synthesized = True\<rparr>"

section \<open>Critical-key registry\<close>

text \<open>\<open>std::map::emplace\<close>: insert at the key's place unless the key is present.\<close>

fun emplace :: "32 word \<Rightarrow> CriticalKey \<Rightarrow> (32 word \<times> CriticalKey) list
    \<Rightarrow> (32 word \<times> CriticalKey) list" where
  "emplace k v [] = [(k, v)]"
| "emplace k v ((k', v') # rest) =
     (if k < k' then (k, v) # (k', v') # rest
      else if k = k' then (k', v') # rest
      else (k', v') # emplace k v rest)"

definition createCheckedKey ::
  "statics \<Rightarrow> (32 word \<Rightarrow> 16 word) \<Rightarrow> 32 word \<Rightarrow> bool \<Rightarrow> bool \<Rightarrow> bool \<Rightarrow> CriticalKey" where
  "createCheckedKey d get_key_state virtual_key extended chk_pressed chk_toggled =
     (let scan_code = MapVirtualKey d virtual_key in
      \<lparr>physical_key = GetPhysicalKey d scan_code extended,
       logical_key = GetLogicalKey d virtual_key extended scan_code,
       check_pressed = (chk_pressed \<or> chk_toggled),
       check_toggled = chk_toggled,
       toggled_on = (if chk_toggled
                     then get_key_state virtual_key AND kStateMaskToggled \<noteq> 0
                     else False)\<rparr>)"

definition InitCriticalKeys ::
  "statics \<Rightarrow> (32 word \<Rightarrow> 16 word) \<Rightarrow> (32 word \<times> CriticalKey) list" where
  "InitCriticalKeys d g =
     foldl (\<lambda>m (k, v). emplace k v m) []
       [(VK_LSHIFT, createCheckedKey d g VK_LSHIFT False True False),
        (VK_RSHIFT, createCheckedKey d g VK_RSHIFT False True False),
        (VK_LCONTROL, createCheckedKey d g VK_LCONTROL False True False),
        (VK_RCONTROL, createCheckedKey d g VK_RCONTROL True True False),
        (VK_CAPITAL, createCheckedKey d g VK_CAPITAL False True True),
        (VK_SCROLL, createCheckedKey d g VK_SCROLL False True True),
        (VK_NUMLOCK, createCheckedKey d g VK_NUMLOCK True True True)]"

text \<open>
  The constructor. \<open>sent_any_events\<close> is not initialised by it; its first value is the
  parameter \<open>sent0\<close>.
\<close>

definition KeyboardKeyEmbedderHandler ::
  "statics \<Rightarrow> (32 word \<Rightarrow> 16 word) \<Rightarrow> bool \<Rightarrow> engine" where
  "KeyboardKeyEmbedderHandler d get_key_state sent0 =
     \<lparr>pressingRecords = Map.empty,
      critical_keys = InitCriticalKeys d get_key_state,
      response_id = 1,
      pending_responses = Map.empty,
      sent_any_events = sent0,
      trace = []\<rparr>"

fun update_found :: "32 word \<Rightarrow> (CriticalKey \<Rightarrow> CriticalKey)
    \<Rightarrow> (32 word \<times> CriticalKey) list \<Rightarrow> (32 word \<times> CriticalKey) list" where
  "update_found k f [] = []"
| "update_found k f ((k', v) # rest) =
     (if k' = k then (k', f v) # rest else (k', v) # update_found k f rest)"

definition UpdateLastSeenCritialKey :: "32 word \<Rightarrow> 64 word \<Rightarrow> 64 word \<Rightarrow> engine \<Rightarrow> engine" where
  "UpdateLastSeenCritialKey virtual_key phys logi s =
     s\<lparr>critical_keys :=
         update_found virtual_key (\<lambda>ck. ck\<lparr>physical_key := phys, logical_key := logi\<rparr>)
           (critical_keys s)\<rparr>"

section \<open>Synchronization engine\<close>

text \<open>
  Both passes are loops over \<open>critical_keys_\<close> whose body may change the visited
  record, the press-state table and the outbound trace. The loop hands each entry to
  the body and puts the returned record back in its place. The bodies below are those
  of the build without \<open>WINUWP\<close>.
\<close>

fun for_critical_keys ::
  "(32 word \<Rightarrow> CriticalKey \<Rightarrow> engine \<Rightarrow> error + (CriticalKey \<times> engine))
   \<Rightarrow> (32 word \<times> CriticalKey) list \<Rightarrow> engine
   \<Rightarrow> error + ((32 word \<times> CriticalKey) list \<times> engine)" where
  "for_critical_keys body [] s = Inr ([], s)"
| "for_critical_keys body ((virtual_key, key_info) # rest) s =
     (case body virtual_key key_info s of
        Inl e \<Rightarrow> Inl e
      | Inr (key_info', s') \<Rightarrow>
         (case for_critical_keys body rest s' of
            Inl e \<Rightarrow> Inl e
          | Inr (rest', s'') \<Rightarrow> Inr ((virtual_key, key_info') # rest', s'')))"

definition toggled_body ::
  "(32 word \<Rightarrow> 16 word) \<Rightarrow> 32 word \<Rightarrow> bool \<Rightarrow> 32 word \<Rightarrow> CriticalKey \<Rightarrow> engine
   \<Rightarrow> error + (CriticalKey \<times> engine)" where
  "toggled_body get_key_state this_virtual_key is_down_event virtual_key key_info s =
     (if physical_key key_info = 0 then Inr (key_info, s)
      else if logical_key key_info = 0 then Inl AssertionFailed
      else if check_toggled key_info then
        (let state = get_key_state virtual_key;
             should_toggled = (state AND kStateMaskToggled \<noteq> 0);
             key_info1 = (if virtual_key = this_virtual_key \<and> is_down_event
                          then key_info\<lparr>toggled_on := \<not> toggled_on key_info\<rparr>
                          else key_info);
             s3 = (if toggled_on key_info1 \<noteq> should_toggled then
                     (let s1 = (if pressingRecords s (physical_key key_info1) \<noteq> None
                                then SendEvent (SynthesizeSimpleEvent kFlutterKeyEventTypeUp
                                       (physical_key key_info1) (logical_key key_info1)
                                       empty_character) None s
                                else s);
                          s2 = s1\<lparr>pressingRecords := (pressingRecords s1)
                                  (physical_key key_info1 \<mapsto> logical_key key_info1)\<rparr>
                      in SendEvent (SynthesizeSimpleEvent kFlutterKeyEventTypeDown
                           (physical_key key_info1) (logical_key key_info1)
                           empty_character) None s2)
                   else s)
         in Inr (key_info1\<lparr>toggled_on := should_toggled\<rparr>, s3))
      else Inr (key_info, s))"

definition SynchronizeCritialToggledStates ::
  "(32 word \<Rightarrow> 16 word) \<Rightarrow> 32 word \<Rightarrow> bool \<Rightarrow> engine \<Rightarrow> error + engine" where
  "SynchronizeCritialToggledStates get_key_state this_virtual_key is_down_event s =
     (case for_critical_keys (toggled_body get_key_state this_virtual_key is_down_event)
             (critical_keys s) s of
        Inl e \<Rightarrow> Inl e
      | Inr (keys', s') \<Rightarrow> Inr (s'\<lparr>critical_keys := keys'\<rparr>))"

definition pressed_body ::
  "(32 word \<Rightarrow> 16 word) \<Rightarrow> 32 word \<Rightarrow> bool \<Rightarrow> 32 word \<Rightarrow> CriticalKey \<Rightarrow> engine
   \<Rightarrow> error + (CriticalKey \<times> engine)" where
  "pressed_body get_key_state this_virtual_key pressed_state_will_change virtual_key key_info s =
     (if physical_key key_info = 0 then Inr (key_info, s)
      else if logical_key key_info = 0 then Inl AssertionFailed
      else if check_pressed key_info then
        (let state = get_key_state virtual_key;
             recorded_pressed = (pressingRecords s (physical_key key_info) \<noteq> None);
             should_pressed0 = (state AND kStateMaskPressed \<noteq> 0);
             should_pressed = (if virtual_key = this_virtual_key \<and> pressed_state_will_change
                               then \<not> should_pressed0 else should_pressed0)
         in if recorded_pressed \<noteq> should_pressed then
              (let s1 = (if recorded_pressed
                         then s\<lparr>pressingRecords :=
                                 (pressingRecords s)(physical_key key_info := None)\<rparr>
                         else s\<lparr>pressingRecords :=
                                 (pressingRecords s)(physical_key key_info \<mapsto> logical_key key_info)\<rparr>)
               in Inr (key_info,
                       SendEvent (SynthesizeSimpleEvent
                           (if recorded_pressed then kFlutterKeyEventTypeUp
                            else kFlutterKeyEventTypeDown)
                           (physical_key key_info) (logical_key key_info) empty_character) None s1))
            else Inr (key_info, s))
      else Inr (key_info, s))"

definition SynchronizeCritialPressedStates ::
  "(32 word \<Rightarrow> 16 word) \<Rightarrow> 32 word \<Rightarrow> bool \<Rightarrow> engine \<Rightarrow> error + engine" where
  "SynchronizeCritialPressedStates get_key_state this_virtual_key pressed_state_will_change s =
     (case for_critical_keys
             (pressed_body get_key_state this_virtual_key pressed_state_will_change)
             (critical_keys s) s of
        Inl e \<Rightarrow> Inl e
      | Inr (keys', s') \<Rightarrow> Inr (s'\<lparr>critical_keys := keys'\<rparr>))"

section \<open>Classification, event sequencer and pending-response ledger\<close>

text \<open>
  The first part of \<open>KeyboardHookImpl\<close> (the branches on the direction of the
  transition): \<open>None\<close> where the source calls \<open>callback(true)\<close> and returns, otherwise
  \<open>type\<close>, \<open>result_logical_key\<close>, \<open>eventual_logical_record\<close> and \<open>character_bytes\<close>.
\<close>

definition classify ::
  "bool \<Rightarrow> bool \<Rightarrow> bool \<Rightarrow> 64 word \<Rightarrow> 64 word \<Rightarrow> 32 word
   \<Rightarrow> error + (FlutterKeyEventType \<times> 64 word \<times> 64 word \<times> 8 word list) option" where
  "classify is_physical_down had_record was_down last_logical_record logical_key' character' =
     (if is_physical_down then
        (if had_record then
           (if was_down then
              (case ConvertUtf32ToUtf8 character' of
                 Inl e \<Rightarrow> Inl e
               | Inr character_bytes \<Rightarrow>
                   Inr (Some (kFlutterKeyEventTypeRepeat, last_logical_record,
                              last_logical_record, character_bytes)))
            else Inr None)
         else
           (case ConvertUtf32ToUtf8 character' of
              Inl e \<Rightarrow> Inl e
            | Inr character_bytes \<Rightarrow>
                Inr (Some (kFlutterKeyEventTypeDown, logical_key', logical_key',
                           character_bytes))))
      else
        (if last_logical_record = 0 then Inr None
         else Inr (Some (kFlutterKeyEventTypeUp, last_logical_record, 0, []))))"

definition invoke_callback :: "nat \<Rightarrow> bool \<Rightarrow> engine \<Rightarrow> engine" where
  "invoke_callback callback handled s = s\<lparr>trace := trace s @ [Called callback handled]\<rparr>"

text \<open>
  The end of \<open>KeyboardHookImpl\<close>: what \<open>pressingRecords_[physical_key]\<close> becomes, with
  the assertion that the entry to erase is there.
\<close>

definition settle_record :: "64 word \<Rightarrow> 64 word \<Rightarrow> engine \<Rightarrow> error + engine" where
  "settle_record phys eventual_logical_record s =
     (if eventual_logical_record \<noteq> 0 then
        Inr (s\<lparr>pressingRecords := (pressingRecords s)(phys \<mapsto> eventual_logical_record)\<rparr>)
      else
        (case pressingRecords s phys of
           None \<Rightarrow> Inl AssertionFailed
         | Some _ \<Rightarrow> Inr (s\<lparr>pressingRecords := (pressingRecords s)(phys := None)\<rparr>)))"

definition KeyboardHookImpl ::
  "statics \<Rightarrow> (32 word \<Rightarrow> 16 word) \<Rightarrow> 32 word \<Rightarrow> 32 word \<Rightarrow> 32 word \<Rightarrow> 32 word \<Rightarrow> bool \<Rightarrow> bool
   \<Rightarrow> nat \<Rightarrow> engine \<Rightarrow> error + engine" where
  "KeyboardHookImpl d get_key_state key scancode action character' extended was_down callback s =
     (let phys = GetPhysicalKey d scancode extended;
          logi = GetLogicalKey d key extended scancode
      in if \<not> (action = WM_KEYDOWN \<or> action = WM_KEYUP \<or>
                action = WM_SYSKEYDOWN \<or> action = WM_SYSKEYUP)
         then Inl AssertionFailed
         else
           (let is_physical_down = (action = WM_KEYDOWN \<or> action = WM_SYSKEYDOWN);
                had_record = (pressingRecords s phys \<noteq> None);
                last_logical_record = (case pressingRecords s phys of None \<Rightarrow> 0 | Some v \<Rightarrow> v)
            in case classify is_physical_down had_record was_down last_logical_record logi
                      (UndeadChar d character') of
                 Inl e \<Rightarrow> Inl e
               | Inr None \<Rightarrow> Inr (invoke_callback callback True s)
               | Inr (Some (ty, result_logical_key, eventual_logical_record, character_bytes)) \<Rightarrow>
                   if result_logical_key = ucast VK_PROCESSKEY
                   then Inr (invoke_callback callback True s)
                   else
                     (case SynchronizeCritialToggledStates get_key_state key
                             (ty = kFlutterKeyEventTypeDown)
                             (UpdateLastSeenCritialKey key phys result_logical_key s) of
                        Inl e \<Rightarrow> Inl e
                      | Inr s1 \<Rightarrow>
                     (case SynchronizeCritialPressedStates get_key_state key
                             (ty \<noteq> kFlutterKeyEventTypeRepeat) s1 of
                        Inl e \<Rightarrow> Inl e
                      | Inr s2 \<Rightarrow>
                     (case settle_record phys eventual_logical_record s2 of
                        Inl e \<Rightarrow> Inl e
                      | Inr s3 \<Rightarrow>
                         (let rid = response_id s3 + 1;
                              s4 = s3\<lparr>response_id := rid,
                                      pending_responses := (pending_responses s3)(rid \<mapsto> callback)\<rparr>
                          in Inr (SendEvent
                                    \<lparr>type = ty, physical = phys, logical = result_logical_key,
                                     character = character_bytes, synthesized = False\<rparr>
                                    (Some rid) s4)))))))"

definition empty_event :: FlutterKeyEvent where
  "empty_event =
     \<lparr>type = kFlutterKeyEventTypeDown, physical = 0, logical = 0,
      character = empty_character, synthesized = False\<rparr>"

definition KeyboardHook ::
  "statics \<Rightarrow> (32 word \<Rightarrow> 16 word) \<Rightarrow> 32 word \<Rightarrow> 32 word \<Rightarrow> 32 word \<Rightarrow> 32 word \<Rightarrow> bool \<Rightarrow> bool
   \<Rightarrow> nat \<Rightarrow> engine \<Rightarrow> error + engine" where
  "KeyboardHook d get_key_state key scancode action character' extended was_down callback s =
     (case KeyboardHookImpl d get_key_state key scancode action character' extended was_down
             callback (s\<lparr>sent_any_events := False\<rparr>) of
        Inl e \<Rightarrow> Inl e
      | Inr s1 \<Rightarrow>
          Inr (if \<not> sent_any_events s1 then SendEvent empty_event None s1 else s1))"

text \<open>
  \<open>HandleResponse(handled, user_data)\<close>: \<open>user_data\<close> points to the pending response
  that the ledger owns under its response id, so it is usable as long as that entry
  exists. The stored closure erases the entry and calls the caller's callback.
\<close>

definition HandleResponse :: "bool \<Rightarrow> 64 word \<Rightarrow> engine \<Rightarrow> error + engine" where
  "HandleResponse handled user_data s =
     (case pending_responses s user_data of
        None \<Rightarrow> Inl DanglingPointer
      | Some callback \<Rightarrow>
          Inr (invoke_callback callback handled
                 (s\<lparr>pending_responses := (pending_responses s)(user_data := None)\<rparr>)))"

section \<open>Vocabulary of the properties\<close>

text \<open>The events handed to the host, in order, with their user data.\<close>

fun sent_events :: "effect list \<Rightarrow> (FlutterKeyEvent \<times> 64 word option) list" where
  "sent_events [] = []"
| "sent_events (Sent ev ud # es) = (ev, ud) # sent_events es"
| "sent_events (Called cb h # es) = sent_events es"

text \<open>What one call added to the trace.\<close>

definition added :: "engine \<Rightarrow> engine \<Rightarrow> effect list" where
  "added s s' = drop (length (trace s)) (trace s')"


text \<open>
  The press state a host derives from the events it receives: an Up event releases the
  physical key, a Down or Repeat event holds it with the event's logical key.
\<close>

definition apply_event :: "(64 word \<rightharpoonup> 64 word) \<Rightarrow> FlutterKeyEvent \<times> 64 word option
    \<Rightarrow> (64 word \<rightharpoonup> 64 word)" where
  "apply_event tbl e =
     (if type (fst e) = kFlutterKeyEventTypeUp then tbl(physical (fst e) := None)
      else tbl(physical (fst e) \<mapsto> logical (fst e)))"

text \<open>The assertion of both synchronization loops, for every entry of the registry.\<close>

definition keys_ok :: "(32 word \<times> CriticalKey) list \<Rightarrow> bool" where
  "keys_ok kvs = list_all (\<lambda>kv. physical_key (snd kv) = 0 \<or> logical_key (snd kv) \<noteq> 0) kvs"

text \<open>
  The ledger holds no id beyond the last one assigned, and neither that counter nor a
  stored id is zero.
\<close>

definition ledger_inv :: "engine \<Rightarrow> bool" where
  "ledger_inv s \<longleftrightarrow>
     response_id s \<noteq> 0 \<and>
     (\<forall>rid \<in> dom (pending_responses s). rid \<noteq> 0 \<and> rid \<le> response_id s)"

text \<open>
  What a synchronization pass may do between two engine states: it sends synthesized
  events without response tracking and with an empty character, it raises
  \<open>sent_any_events\<close> exactly when it sends one, it leaves the response counter and the
  ledger alone, and the press-state table it leaves is the one the host derives from
  the events sent.
\<close>

definition synced :: "engine \<Rightarrow> engine \<Rightarrow> bool" where
  "synced s s' \<longleftrightarrow>
     response_id s' = response_id s \<and> pending_responses s' = pending_responses s \<and>
     (\<exists>ext. trace s' = trace s @ ext \<and>
        (\<forall>e \<in> set ext. \<exists>ev. e = Sent ev None \<and> synthesized ev \<and> character ev = []) \<and>
        (sent_any_events s' \<longleftrightarrow> sent_any_events s \<or> ext \<noteq> []) \<and>
        pressingRecords s' = foldl apply_event (pressingRecords s) (sent_events ext))"

text \<open>Two critical-key records that differ at most in the toggled flag.\<close>

definition same_key :: "CriticalKey \<Rightarrow> CriticalKey \<Rightarrow> bool" where
  "same_key ki ki' \<longleftrightarrow>
     physical_key ki' = physical_key ki \<and> logical_key ki' = logical_key ki \<and>
     check_pressed ki' = check_pressed ki \<and> check_toggled ki' = check_toggled ki"


text \<open>The response ids handed to the host with tracked events, in dispatch order.\<close>

fun tracked_ids :: "effect list \<Rightarrow> 64 word list" where
  "tracked_ids [] = []"
| "tracked_ids (Sent ev (Some rid) # es) = rid # tracked_ids es"
| "tracked_ids (Sent ev None # es) = tracked_ids es"
| "tracked_ids (Called cb h # es) = tracked_ids es"

text \<open>
  The life of an engine: raw inputs arriving at \<open>KeyboardHook\<close> (each with the key
  state the operating system reports during it) and acknowledgments of the host
  arriving at \<open>HandleResponse\<close>, in any order, until one of them fails.
\<close>

datatype call =
  KeyInput "32 word \<Rightarrow> 16 word" "32 word" "32 word" "32 word" "32 word" bool bool nat
| Acknowledge bool "64 word"

fun run :: "statics \<Rightarrow> call list \<Rightarrow> engine \<Rightarrow> error + engine" where
  "run d [] s = Inr s"
| "run d (KeyInput g key scancode action character' extended was_down callback # cs) s =
     (case KeyboardHook d g key scancode action character' extended was_down callback s of
        Inl e \<Rightarrow> Inl e
      | Inr s' \<Rightarrow> run d cs s')"
| "run d (Acknowledge handled user_data # cs) s =
     (case HandleResponse handled user_data s of
        Inl e \<Rightarrow> Inl e
      | Inr s' \<Rightarrow> run d cs s')"

text \<open>
  A small instance of the static data and of the operating system's key state, for
  evaluating the model on concrete inputs: the scan codes of the seven critical keys
  and of the key A (\<open>0x1E\<close>).
\<close>

definition sample_statics :: statics where
  "sample_statics =
     \<lparr>windowsToPhysicalMap =
        [0x3A \<mapsto> 0x00070039, 0x2A \<mapsto> 0x000700E1, 0x36 \<mapsto> 0x000700E5,
         0x1D \<mapsto> 0x000700E0, 0xE01D \<mapsto> 0x000700E4, 0xE045 \<mapsto> 0x00070053,
         0x46 \<mapsto> 0x00070047, 0x1E \<mapsto> 0x00070004],
      windowsToLogicalMap = [0x14 \<mapsto> 0x0100000104, 0xA0 \<mapsto> 0x010000010D],
      scanCodeToLogicalMap = Map.empty,
      valueMask = 0x000FFFFFFFF,
      unicodePlane = 0,
      windowsPlane = 0x01600000000,
      UndeadChar = (\<lambda>ch. ch AND 0x7FFFFFFF),
      MapVirtualKey =
        (\<lambda>vk. if vk = 0x14 then 0x3A else if vk = 0x90 then 0x45
              else if vk = 0x91 then 0x46 else if vk = 0xA0 then 0x2A
              else if vk = 0xA1 then 0x36 else if vk = 0xA2 then 0x1D
              else if vk = 0xA3 then 0x1D else 0)\<rparr>"

text \<open>No key pressed and no toggle on.\<close>

definition sample_idle :: "32 word \<Rightarrow> 16 word" where
  "sample_idle vk = 0"

text \<open>The key \<open>held\<close> is reported pressed, nothing else.\<close>

definition sample_pressed :: "32 word \<Rightarrow> 32 word \<Rightarrow> 16 word" where
  "sample_pressed held vk = (if vk = held then 0x80 else 0)"

definition sample_engine :: engine where
  "sample_engine = KeyboardKeyEmbedderHandler sample_statics sample_idle False"

section \<open>Basic facts\<close>

lemmas vk_defs = VK_PROCESSKEY_def VK_CAPITAL_def VK_NUMLOCK_def VK_SCROLL_def
  VK_LSHIFT_def VK_RSHIFT_def VK_LCONTROL_def VK_RCONTROL_def

lemmas wm_defs = WM_KEYDOWN_def WM_KEYUP_def WM_SYSKEYDOWN_def WM_SYSKEYUP_def

lemma ConvertChar32ToUtf8_length:
  "ConvertChar32ToUtf8 ch = Inr bs \<Longrightarrow> 1 \<le> length bs \<and> length bs \<le> 4"
  by (auto simp: ConvertChar32ToUtf8_def split: if_splits)

lemma ConvertChar32ToUtf8_total:
  "ch \<le> 0x10FFFF \<Longrightarrow> \<exists>bs. ConvertChar32ToUtf8 ch = Inr bs"
  by (simp add: ConvertChar32ToUtf8_def)

lemma c_str_length: "length (c_str bs) \<le> length bs"
  by (simp add: c_str_def length_takeWhile_le)

lemma ConvertUtf32ToUtf8_total:
  assumes "ch \<le> 0x10FFFF"
  shows "\<exists>bs. ConvertUtf32ToUtf8 ch = Inr bs"
proof (cases "ch = 0")
  case True
  then show ?thesis by (simp add: ConvertUtf32ToUtf8_def)
next
  case False
  from assms obtain r where r: "ConvertChar32ToUtf8 ch = Inr r"
    using ConvertChar32ToUtf8_total by blast
  then have "length r \<le> 4" using ConvertChar32ToUtf8_length by blast
  then have "length (c_str r) < kCharacterCacheSize"
    using c_str_length [of r] by (simp add: kCharacterCacheSize_def)
  with r False show ?thesis by (simp add: ConvertUtf32ToUtf8_def strcpy_s_def)
qed

lemma GetLogicalKey_PROCESSKEY: "GetLogicalKey d VK_PROCESSKEY ext sc = ucast VK_PROCESSKEY"
  by (simp add: GetLogicalKey_def)

lemma sample_engine_fresh:
  "trace sample_engine = []" "pressingRecords sample_engine = Map.empty"
  "response_id sample_engine = 1" "pending_responses sample_engine = Map.empty"
  by (simp_all add: sample_engine_def KeyboardKeyEmbedderHandler_def)

lemma sample_physical_A: "GetPhysicalKey sample_statics 0x1E False = 0x00070004"
  by (simp add: GetPhysicalKey_def sample_statics_def normalizeScancode_def)

subsection \<open>The codec\<close>

lemma unat_GetBit:
  assumes "e \<le> s" "s - e \<le> 8"
  shows "unat (GetBit ch s e) = (unat ch div 2 ^ e) mod 2 ^ (s - e)"
proof -
  have m: "(push_bit (s - e) 1 - 1 :: 32 word) = mask (s - e)"
    by (simp add: mask_eq_exp_minus_1)
  have "GetBit ch s e = ucast (take_bit (s - e) (drop_bit e ch))"
    unfolding GetBit_def m by (simp add: take_bit_eq_mask)
  also have "unat \<dots> = unat (take_bit (s - e) (drop_bit e ch)) mod 2 ^ 8"
    by (simp add: unsigned_ucast_eq take_bit_eq_mod)
  also have "unat (take_bit (s - e) (drop_bit e ch)) = take_bit (s - e) (drop_bit e (unat ch))"
    by (simp only: unsigned_take_bit_eq unat_drop_bit_eq)
  also have "\<dots> = (unat ch div 2 ^ e) mod 2 ^ (s - e)"
    by (simp add: take_bit_eq_mod drop_bit_eq_div)
  finally have eq: "unat (GetBit ch s e) = (unat ch div 2 ^ e) mod 2 ^ (s - e) mod 2 ^ 8" .
  have "(unat ch div 2 ^ e) mod 2 ^ (s - e) < (2::nat) ^ (s - e)" by simp
  also have "(2::nat) ^ (s - e) \<le> 2 ^ 8"
    using assms by (intro power_increasing) simp_all
  finally show ?thesis using eq by simp
qed

lemma unat_byte_add:
  fixes x :: "8 word"
  shows "a + unat x < 256 \<Longrightarrow> unat (word_of_nat a + x) = a + unat x"
  by (simp add: unat_word_ariths unat_of_nat)

lemma ConvertChar32ToUtf8_bytes:
  assumes "ch \<le> 0x10FFFF"
  shows "\<exists>bs. ConvertChar32ToUtf8 ch = Inr bs \<and>
           map unat bs =
             (if unat ch < 0x80 then [unat ch]
              else if unat ch < 0x800 then [0xC0 + unat ch div 64, 0x80 + unat ch mod 64]
              else if unat ch < 0x10000 then
                [0xE0 + unat ch div 4096, 0x80 + (unat ch div 64) mod 64, 0x80 + unat ch mod 64]
              else
                [0xF0 + unat ch div 262144, 0x80 + (unat ch div 4096) mod 64,
                 0x80 + (unat ch div 64) mod 64, 0x80 + unat ch mod 64])"
proof -
  let ?n = "unat ch"
  have n: "?n \<le> 0x10FFFF" using assms by (simp add: word_le_nat_alt)
  have le: "\<And>k::32 word. (ch \<le> k) = (?n \<le> unat k)" by (simp add: word_le_nat_alt)
  have g6: "unat (GetBit ch 6 0) = ?n mod 64" by (simp add: unat_GetBit)
  have g12: "unat (GetBit ch 12 6) = (?n div 64) mod 64" by (simp add: unat_GetBit)
  have g18: "unat (GetBit ch 18 12) = (?n div 4096) mod 64" by (simp add: unat_GetBit)
  have g11: "unat (GetBit ch 11 6) = (?n div 64) mod 32" by (simp add: unat_GetBit)
  have g16: "unat (GetBit ch 16 12) = (?n div 4096) mod 16" by (simp add: unat_GetBit)
  have g21: "unat (GetBit ch 21 18) = (?n div 262144) mod 8" by (simp add: unat_GetBit)
  have u1: "?n \<le> 0x7F \<Longrightarrow> unat (ucast ch :: 8 word) = ?n"
    by (simp add: unsigned_ucast_eq take_bit_eq_mod)
  have c0: "\<And>x::8 word. unat x < 64 \<Longrightarrow> unat (0x80 + x) = 0x80 + unat x"
    using unat_byte_add [of 128] by simp
  have c1: "\<And>x::8 word. unat x < 32 \<Longrightarrow> unat (0xC0 + x) = 0xC0 + unat x"
    using unat_byte_add [of 192] by simp
  have c2: "\<And>x::8 word. unat x < 16 \<Longrightarrow> unat (0xE0 + x) = 0xE0 + unat x"
    using unat_byte_add [of 224] by simp
  have c3: "\<And>x::8 word. unat x < 8 \<Longrightarrow> unat (0xF0 + x) = 0xF0 + unat x"
    using unat_byte_add [of 240] by simp
  have t6: "unat (0x80 + GetBit ch 6 0) = 0x80 + ?n mod 64" by (simp add: c0 g6)
  have t12: "unat (0x80 + GetBit ch 12 6) = 0x80 + (?n div 64) mod 64" by (simp add: c0 g12)
  have t18: "unat (0x80 + GetBit ch 18 12) = 0x80 + (?n div 4096) mod 64" by (simp add: c0 g18)
  have t11: "?n \<le> 0x7FF \<Longrightarrow> unat (0xC0 + GetBit ch 11 6) = 0xC0 + ?n div 64"
    by (simp add: c1 g11)
  have t16: "?n \<le> 0xFFFF \<Longrightarrow> unat (0xE0 + GetBit ch 16 12) = 0xE0 + ?n div 4096"
    by (simp add: c2 g16)
  have t21: "unat (0xF0 + GetBit ch 21 18) = 0xF0 + ?n div 262144"
    using n by (simp add: c3 g21)
  show ?thesis
    using n
    by (simp add: ConvertChar32ToUtf8_def le u1 t6 t12 t18 t11 t16 t21 not_le not_less)
qed

lemma ConvertChar32ToUtf8_standard:
  assumes "ch \<le> 0x10FFFF" and "ch < 0xD800 \<or> 0xDFFF < ch"
  shows "\<exists>bs. ConvertChar32ToUtf8 ch = Inr bs \<and> utf8_standard (unat ch) = Some (map unat bs)"
proof -
  have n: "unat ch \<le> 0x10FFFF" using assms(1) by (simp add: word_le_nat_alt)
  have s: "unat ch < 0xD800 \<or> 0xDFFF < unat ch" using assms(2) by (simp add: word_less_nat_alt)
  from ConvertChar32ToUtf8_bytes [OF assms(1)] obtain bs where
    c: "ConvertChar32ToUtf8 ch = Inr bs"
    and m: "map unat bs =
             (if unat ch < 0x80 then [unat ch]
              else if unat ch < 0x800 then [0xC0 + unat ch div 64, 0x80 + unat ch mod 64]
              else if unat ch < 0x10000 then
                [0xE0 + unat ch div 4096, 0x80 + (unat ch div 64) mod 64, 0x80 + unat ch mod 64]
              else
                [0xF0 + unat ch div 262144, 0x80 + (unat ch div 4096) mod 64,
                 0x80 + (unat ch div 64) mod 64, 0x80 + unat ch mod 64])"
    by blast
  have "utf8_standard (unat ch) = Some (map unat bs)"
    unfolding m using n s by (auto simp: utf8_standard_def)
  with c show ?thesis by blast
qed

lemma ConvertChar32ToUtf8_surrogate:
  assumes "0xD800 \<le> ch" and "ch \<le> 0xDFFF"
  shows "\<exists>bs. ConvertChar32ToUtf8 ch = Inr bs \<and>
           map unat bs = [0xED, 0x80 + (unat ch div 64) mod 64, 0x80 + unat ch mod 64] \<and>
           utf8_standard (unat ch) = None"
proof -
  have lo: "0xD800 \<le> unat ch" using assms(1) by (simp add: word_le_nat_alt)
  have hi: "unat ch \<le> 0xDFFF" using assms(2) by (simp add: word_le_nat_alt)
  have r: "ch \<le> 0x10FFFF" using hi by (simp add: word_le_nat_alt)
  have d: "unat ch div 4096 = 13" using lo hi by simp
  from ConvertChar32ToUtf8_bytes [OF r] lo hi d
  have "\<exists>bs. ConvertChar32ToUtf8 ch = Inr bs \<and>
           map unat bs = [0xED, 0x80 + (unat ch div 64) mod 64, 0x80 + unat ch mod 64]"
    by auto
  moreover have "utf8_standard (unat ch) = None" using lo hi by (simp add: utf8_standard_def)
  ultimately show ?thesis by simp
qed



subsection \<open>The synchronization passes and the shape of a successful call\<close>

lemma sent_events_append: "sent_events (xs @ ys) = sent_events xs @ sent_events ys"
  by (induction xs rule: sent_events.induct) simp_all

lemma synced_refl: "synced s s"
  by (simp add: synced_def)

lemma synced_trans:
  assumes "synced a b" "synced b c"
  shows "synced a c"
proof -
  from assms(1) obtain e1 where e1: "trace b = trace a @ e1"
    "\<forall>e \<in> set e1. \<exists>ev. e = Sent ev None \<and> synthesized ev \<and> character ev = []"
    "sent_any_events b \<longleftrightarrow> sent_any_events a \<or> e1 \<noteq> []"
    "pressingRecords b = foldl apply_event (pressingRecords a) (sent_events e1)"
    unfolding synced_def by blast
  from assms(2) obtain e2 where e2: "trace c = trace b @ e2"
    "\<forall>e \<in> set e2. \<exists>ev. e = Sent ev None \<and> synthesized ev \<and> character ev = []"
    "sent_any_events c \<longleftrightarrow> sent_any_events b \<or> e2 \<noteq> []"
    "pressingRecords c = foldl apply_event (pressingRecords b) (sent_events e2)"
    unfolding synced_def by blast
  have "trace c = trace a @ (e1 @ e2)" using e1(1) e2(1) by simp
  moreover have "\<forall>e \<in> set (e1 @ e2). \<exists>ev. e = Sent ev None \<and> synthesized ev \<and> character ev = []"
    using e1(2) e2(2) by auto
  moreover have "sent_any_events c \<longleftrightarrow> sent_any_events a \<or> e1 @ e2 \<noteq> []"
    using e1(3) e2(3) by auto
  moreover have "pressingRecords c = foldl apply_event (pressingRecords a) (sent_events (e1 @ e2))"
    using e1(4) e2(4) by (simp add: sent_events_append)
  ultimately show ?thesis
    using assms unfolding synced_def by metis
qed

lemma for_critical_keys_rel:
  assumes refl: "\<And>s. R s s"
    and trans: "\<And>a b c. R a b \<Longrightarrow> R b c \<Longrightarrow> R a c"
  shows "(\<And>vk ki s ki' s'. (vk, ki) \<in> set kvs \<Longrightarrow> body vk ki s = Inr (ki', s') \<Longrightarrow>
            R s s' \<and> Q ki ki') \<Longrightarrow>
         for_critical_keys body kvs s = Inr (kvs', s') \<Longrightarrow>
         R s s' \<and> list_all2 (\<lambda>kv kv'. fst kv' = fst kv \<and> Q (snd kv) (snd kv')) kvs kvs'"
proof (induction kvs arbitrary: s kvs' s')
  case Nil
  then show ?case by (simp add: refl)
next
  case (Cons kv kvs)
  obtain vk ki where kv: "kv = (vk, ki)" by (cases kv)
  from Cons.prems(2) kv obtain ki1 s1 rest' where
    b: "body vk ki s = Inr (ki1, s1)" and
    r: "for_critical_keys body kvs s1 = Inr (rest', s')" and
    k: "kvs' = (vk, ki1) # rest'"
    by (auto split: sum.splits prod.splits)
  from Cons.prems(1) [OF _ b] kv have 1: "R s s1" "Q ki ki1" by simp_all
  have "R s1 s' \<and> list_all2 (\<lambda>kv kv'. fst kv' = fst kv \<and> Q (snd kv) (snd kv')) kvs rest'"
    by (rule Cons.IH [OF _ r]) (rule Cons.prems(1), simp_all)
  then show ?case using trans [OF 1(1)] 1(2) kv k by simp
qed

lemma for_critical_keys_total:
  assumes "\<And>kv s. kv \<in> set kvs \<Longrightarrow> \<exists>r. body (fst kv) (snd kv) s = Inr r"
  shows "\<exists>r. for_critical_keys body kvs s = Inr r"
  using assms
proof (induction kvs arbitrary: s)
  case Nil
  then show ?case by simp
next
  case (Cons kv kvs)
  obtain vk ki where kv: "kv = (vk, ki)" by (cases kv)
  from Cons.prems [of kv s] kv obtain ki1 s1 where b: "body vk ki s = Inr (ki1, s1)"
    by auto
  from Cons.IH [of s1] Cons.prems obtain r where "for_critical_keys body kvs s1 = Inr r"
    by auto
  with b kv show ?case by (cases r) simp
qed

lemma toggled_body_synced:
  assumes "toggled_body g t dn vk ki s = Inr (ki', s')"
  shows "synced s s' \<and> same_key ki ki'"
  using assms
  by (auto simp: toggled_body_def Let_def synced_def same_key_def SendEvent_def
      SynthesizeSimpleEvent_def apply_event_def empty_character_def split: if_splits)

lemma pressed_body_synced:
  assumes "pressed_body g t wc vk ki s = Inr (ki', s')"
  shows "synced s s' \<and> ki' = ki"
  using assms
  by (auto simp: pressed_body_def Let_def synced_def SendEvent_def
      SynthesizeSimpleEvent_def apply_event_def empty_character_def split: if_splits)

lemma toggled_pass:
  assumes "SynchronizeCritialToggledStates g t dn s = Inr s'"
  shows "synced s s' \<and>
         list_all2 (\<lambda>kv kv'. fst kv' = fst kv \<and> same_key (snd kv) (snd kv'))
           (critical_keys s) (critical_keys s')"
proof -
  from assms obtain keys' s1 where
    l: "for_critical_keys (toggled_body g t dn) (critical_keys s) s = Inr (keys', s1)"
    and s': "s' = s1\<lparr>critical_keys := keys'\<rparr>"
    by (auto simp: SynchronizeCritialToggledStates_def split: sum.splits prod.splits)
  have "synced s s1 \<and>
        list_all2 (\<lambda>kv kv'. fst kv' = fst kv \<and> same_key (snd kv) (snd kv')) (critical_keys s) keys'"
    by (rule for_critical_keys_rel [OF synced_refl synced_trans _ l])
       (auto dest: toggled_body_synced)
  then show ?thesis using s' by (simp add: synced_def)
qed

lemma pressed_pass:
  assumes "SynchronizeCritialPressedStates g t wc s = Inr s'"
  shows "synced s s' \<and> critical_keys s' = critical_keys s"
proof -
  from assms obtain keys' s1 where
    l: "for_critical_keys (pressed_body g t wc) (critical_keys s) s = Inr (keys', s1)"
    and s': "s' = s1\<lparr>critical_keys := keys'\<rparr>"
    by (auto simp: SynchronizeCritialPressedStates_def split: sum.splits prod.splits)
  have "synced s s1 \<and>
        list_all2 (\<lambda>kv kv'. fst kv' = fst kv \<and> snd kv' = snd kv) (critical_keys s) keys'"
    by (rule for_critical_keys_rel [OF synced_refl synced_trans _ l])
       (auto dest: pressed_body_synced)
  moreover have "\<And>xs ys :: (32 word \<times> CriticalKey) list.
      list_all2 (\<lambda>kv kv'. fst kv' = fst kv \<and> snd kv' = snd kv) xs ys \<Longrightarrow> ys = xs"
    by (simp add: list_all2_conv_all_nth list_eq_iff_nth_eq prod_eq_iff)
  ultimately show ?thesis using s' by (auto simp: synced_def)
qed

lemma keys_ok_same:
  assumes "list_all2 (\<lambda>kv kv'. fst kv' = fst kv \<and> same_key (snd kv) (snd kv')) kvs kvs'"
    and "keys_ok kvs"
  shows "keys_ok kvs'"
  using assms
  by (induction rule: list_all2_induct) (auto simp: keys_ok_def same_key_def)

lemma toggled_pass_total:
  assumes "keys_ok (critical_keys s)"
  shows "\<exists>s'. SynchronizeCritialToggledStates g t dn s = Inr s'"
proof -
  have "\<exists>r. for_critical_keys (toggled_body g t dn) (critical_keys s) s = Inr r"
  proof (rule for_critical_keys_total)
    fix kv s0 assume "kv \<in> set (critical_keys s)"
    with assms have "physical_key (snd kv) = 0 \<or> logical_key (snd kv) \<noteq> 0"
      by (auto simp: keys_ok_def list_all_iff)
    then show "\<exists>r. toggled_body g t dn (fst kv) (snd kv) s0 = Inr r"
      by (auto simp: toggled_body_def Let_def)
  qed
  then show ?thesis
    by (auto simp: SynchronizeCritialToggledStates_def split: sum.splits prod.splits)
qed

lemma pressed_pass_total:
  assumes "keys_ok (critical_keys s)"
  shows "\<exists>s'. SynchronizeCritialPressedStates g t wc s = Inr s'"
proof -
  have "\<exists>r. for_critical_keys (pressed_body g t wc) (critical_keys s) s = Inr r"
  proof (rule for_critical_keys_total)
    fix kv s0 assume "kv \<in> set (critical_keys s)"
    with assms have "physical_key (snd kv) = 0 \<or> logical_key (snd kv) \<noteq> 0"
      by (auto simp: keys_ok_def list_all_iff)
    then show "\<exists>r. pressed_body g t wc (fst kv) (snd kv) s0 = Inr r"
      by (auto simp: pressed_body_def Let_def)
  qed
  then show ?thesis
    by (auto simp: SynchronizeCritialPressedStates_def split: sum.splits prod.splits)
qed

lemma classify_Some:
  assumes "classify dn had wd lst logi ch = Inr (Some (ty, rlk, elr, bytes))"
  shows "(ty = kFlutterKeyEventTypeDown \<and> dn \<and> \<not> had \<and> rlk = logi \<and> elr = logi \<and>
            ConvertUtf32ToUtf8 ch = Inr bytes) \<or>
         (ty = kFlutterKeyEventTypeRepeat \<and> dn \<and> had \<and> wd \<and> rlk = lst \<and> elr = lst \<and>
            ConvertUtf32ToUtf8 ch = Inr bytes) \<or>
         (ty = kFlutterKeyEventTypeUp \<and> \<not> dn \<and> lst \<noteq> 0 \<and> rlk = lst \<and> elr = 0 \<and> bytes = [])"
  using assms by (auto simp: classify_def split: if_splits sum.splits)

lemma KeyboardHookImpl_Inr:
  assumes "KeyboardHookImpl d g key sc act ch ext wd cb s = Inr s'"
  shows "(act = WM_KEYDOWN \<or> act = WM_KEYUP \<or> act = WM_SYSKEYDOWN \<or> act = WM_SYSKEYUP) \<and>
         (s' = invoke_callback cb True s \<or>
          (\<exists>ty rlk elr bytes s1 s2 s3.
             classify (act = WM_KEYDOWN \<or> act = WM_SYSKEYDOWN)
               (pressingRecords s (GetPhysicalKey d sc ext) \<noteq> None) wd
               (case pressingRecords s (GetPhysicalKey d sc ext) of None \<Rightarrow> 0 | Some v \<Rightarrow> v)
               (GetLogicalKey d key ext sc) (UndeadChar d ch) = Inr (Some (ty, rlk, elr, bytes)) \<and>
             rlk \<noteq> ucast VK_PROCESSKEY \<and>
             SynchronizeCritialToggledStates g key (ty = kFlutterKeyEventTypeDown)
               (UpdateLastSeenCritialKey key (GetPhysicalKey d sc ext) rlk s) = Inr s1 \<and>
             SynchronizeCritialPressedStates g key (ty \<noteq> kFlutterKeyEventTypeRepeat) s1 = Inr s2 \<and>
             settle_record (GetPhysicalKey d sc ext) elr s2 = Inr s3 \<and>
             s' = SendEvent
                    \<lparr>type = ty, physical = GetPhysicalKey d sc ext, logical = rlk,
                     character = bytes, synthesized = False\<rparr>
                    (Some (response_id s3 + 1))
                    (s3\<lparr>response_id := response_id s3 + 1,
                        pending_responses := (pending_responses s3)(response_id s3 + 1 \<mapsto> cb)\<rparr>)))"
  using assms unfolding KeyboardHookImpl_def Let_def
  by (auto split: if_splits sum.splits option.splits prod.splits)

lemma KeyboardHookImpl_shape:
  assumes "KeyboardHookImpl d g key sc act ch ext wd cb s = Inr s'"
  shows "s' = invoke_callback cb True s \<or>
    (\<exists>ty rlk elr bytes pre.
       classify (act = WM_KEYDOWN \<or> act = WM_SYSKEYDOWN)
         (pressingRecords s (GetPhysicalKey d sc ext) \<noteq> None) wd
         (case pressingRecords s (GetPhysicalKey d sc ext) of None \<Rightarrow> 0 | Some v \<Rightarrow> v)
         (GetLogicalKey d key ext sc) (UndeadChar d ch) = Inr (Some (ty, rlk, elr, bytes)) \<and>
       rlk \<noteq> ucast VK_PROCESSKEY \<and>
       trace s' = trace s @ pre @
         [Sent \<lparr>type = ty, physical = GetPhysicalKey d sc ext, logical = rlk,
                character = bytes, synthesized = False\<rparr> (Some (response_id s + 1))] \<and>
       (\<forall>e \<in> set pre. \<exists>ev. e = Sent ev None \<and> synthesized ev \<and> character ev = []) \<and>
       response_id s' = response_id s + 1 \<and>
       pending_responses s' = (pending_responses s)(response_id s + 1 \<mapsto> cb) \<and>
       sent_any_events s' \<and>
       (if elr \<noteq> 0
        then pressingRecords s' =
               (foldl apply_event (pressingRecords s) (sent_events pre))
                 (GetPhysicalKey d sc ext \<mapsto> elr)
        else foldl apply_event (pressingRecords s) (sent_events pre) (GetPhysicalKey d sc ext) \<noteq> None \<and>
             pressingRecords s' =
               (foldl apply_event (pressingRecords s) (sent_events pre))
                 (GetPhysicalKey d sc ext := None)) \<and>
       list_all2 (\<lambda>kv kv'. fst kv' = fst kv \<and> same_key (snd kv) (snd kv'))
         (update_found key (\<lambda>ck. ck\<lparr>physical_key := GetPhysicalKey d sc ext, logical_key := rlk\<rparr>)
            (critical_keys s))
         (critical_keys s'))"
proof (cases "s' = invoke_callback cb True s")
  case True
  then show ?thesis by simp
next
  case False
  let ?p = "GetPhysicalKey d sc ext"
  from KeyboardHookImpl_Inr [OF assms] False obtain ty rlk elr bytes s1 s2 s3 where
    c: "classify (act = WM_KEYDOWN \<or> act = WM_SYSKEYDOWN) (pressingRecords s ?p \<noteq> None) wd
          (case pressingRecords s ?p of None \<Rightarrow> 0 | Some v \<Rightarrow> v)
          (GetLogicalKey d key ext sc) (UndeadChar d ch) = Inr (Some (ty, rlk, elr, bytes))"
    and ime: "rlk \<noteq> ucast VK_PROCESSKEY"
    and t: "SynchronizeCritialToggledStates g key (ty = kFlutterKeyEventTypeDown)
              (UpdateLastSeenCritialKey key ?p rlk s) = Inr s1"
    and p: "SynchronizeCritialPressedStates g key (ty \<noteq> kFlutterKeyEventTypeRepeat) s1 = Inr s2"
    and r: "settle_record ?p elr s2 = Inr s3"
    and s': "s' = SendEvent
                    \<lparr>type = ty, physical = ?p, logical = rlk,
                     character = bytes, synthesized = False\<rparr>
                    (Some (response_id s3 + 1))
                    (s3\<lparr>response_id := response_id s3 + 1,
                        pending_responses := (pending_responses s3)(response_id s3 + 1 \<mapsto> cb)\<rparr>)"
    by blast
  let ?s0 = "UpdateLastSeenCritialKey key ?p rlk s"
  from toggled_pass [OF t] pressed_pass [OF p]
  have sy: "synced ?s0 s2"
    and ks: "list_all2 (\<lambda>kv kv'. fst kv' = fst kv \<and> same_key (snd kv) (snd kv'))
               (critical_keys ?s0) (critical_keys s2)"
    using synced_trans by auto
  from sy obtain pre where
    rid: "response_id s2 = response_id s" and pend: "pending_responses s2 = pending_responses s"
    and tr: "trace s2 = trace s @ pre"
    and ev: "\<forall>e \<in> set pre. \<exists>ev. e = Sent ev None \<and> synthesized ev \<and> character ev = []"
    and tb: "pressingRecords s2 = foldl apply_event (pressingRecords s) (sent_events pre)"
    unfolding synced_def UpdateLastSeenCritialKey_def by auto
  from r have s3: "response_id s3 = response_id s2" "pending_responses s3 = pending_responses s2"
    "trace s3 = trace s2" "critical_keys s3 = critical_keys s2"
    "if elr \<noteq> 0 then pressingRecords s3 = (pressingRecords s2)(?p \<mapsto> elr)
     else pressingRecords s2 ?p \<noteq> None \<and> pressingRecords s3 = (pressingRecords s2)(?p := None)"
    by (auto simp: settle_record_def split: if_splits option.splits)
  have k0: "critical_keys ?s0 =
      update_found key (\<lambda>ck. ck\<lparr>physical_key := ?p, logical_key := rlk\<rparr>) (critical_keys s)"
    by (simp add: UpdateLastSeenCritialKey_def)
  show ?thesis
    apply (rule disjI2)
    apply (rule exI [of _ ty], rule exI [of _ rlk], rule exI [of _ elr], rule exI [of _ bytes],
        rule exI [of _ pre])
    using c ime ev ks s3 rid pend tr tb k0
    by (auto simp add: s' SendEvent_def split: if_splits)
qed

subsection \<open>What a call adds to the trace\<close>

lemma added_append: "trace s' = trace s @ ext \<Longrightarrow> added s s' = ext"
  by (simp add: added_def)

lemma KeyboardHookImpl_flag:
  assumes "KeyboardHookImpl d g key sc act ch ext wd cb s = Inr s'"
    and "\<not> sent_any_events s"
  shows "sent_any_events s' \<longleftrightarrow> sent_events (added s s') \<noteq> []"
  using KeyboardHookImpl_shape [OF assms(1)]
proof (elim disjE exE conjE)
  assume "s' = invoke_callback cb True s"
  then show ?thesis using assms(2) by (simp add: invoke_callback_def added_def)
next
  fix ty rlk elr bytes pre
  assume tr: "trace s' = trace s @ pre @
      [Sent \<lparr>type = ty, physical = GetPhysicalKey d sc ext, logical = rlk,
             character = bytes, synthesized = False\<rparr> (Some (response_id s + 1))]"
    and fl: "sent_any_events s'"
  from added_append [OF tr] fl show ?thesis by (simp add: sent_events_append)
qed

subsection \<open>The ledger in one call\<close>

lemma word64_less_succ:
  assumes "(x :: 64 word) \<noteq> - 1"
  shows "x < x + 1"
proof -
  have "x + 1 \<noteq> 0" using assms max_word_wrap by blast
  then have "unat (x + 1) = Suc (unat x)" by (metis unatSuc add.commute)
  then show ?thesis by (simp add: word_less_nat_alt)
qed

lemma sent_events_synth_None:
  assumes "\<forall>e \<in> set pre. \<exists>ev. e = Sent ev None \<and> synthesized ev \<and> character ev = []"
    and "(ev, ud) \<in> set (sent_events pre)"
  shows "ud = None \<and> synthesized ev \<and> character ev = []"
  using assms by (induction pre rule: sent_events.induct) auto

lemma KeyboardHook_Inr:
  assumes "KeyboardHook d g key sc act ch ext wd cb s = Inr s'"
  shows "\<exists>s1. KeyboardHookImpl d g key sc act ch ext wd cb (s\<lparr>sent_any_events := False\<rparr>) = Inr s1 \<and>
           (s' = s1 \<or> s' = SendEvent empty_event None s1)"
  using assms by (auto simp: KeyboardHook_def split: sum.splits if_splits)

lemma KeyboardHook_ledger:
  assumes inv: "ledger_inv s"
    and nowrap: "response_id s \<noteq> - 1"
    and hook: "KeyboardHook d g key sc act ch ext wd cb s = Inr s'"
  shows "ledger_inv s' \<and> response_id s \<le> response_id s' \<and>
         (\<forall>rid. pending_responses s rid \<noteq> None \<longrightarrow>
                pending_responses s' rid = pending_responses s rid) \<and>
         (\<forall>ev rid. (ev, Some rid) \<in> set (sent_events (added s s')) \<longrightarrow>
            response_id s < rid \<and> rid = response_id s' \<and> rid \<noteq> 0 \<and>
            pending_responses s rid = None \<and> pending_responses s' rid = Some cb)"
proof -
  let ?s0 = "s\<lparr>sent_any_events := False\<rparr>"
  let ?n = "response_id s + 1"
  from KeyboardHook_Inr [OF hook] obtain s1 where
    i: "KeyboardHookImpl d g key sc act ch ext wd cb ?s0 = Inr s1"
    and s': "s' = s1 \<or> s' = SendEvent empty_event None s1" by blast
  have lt: "response_id s < ?n" using nowrap by (rule word64_less_succ)
  have fresh: "pending_responses s ?n = None"
  proof (rule ccontr)
    assume "pending_responses s ?n \<noteq> None"
    then have "?n \<in> dom (pending_responses s)" by auto
    with inv have "?n \<le> response_id s" by (simp add: ledger_inv_def)
    with lt show False by simp
  qed
  from KeyboardHookImpl_shape [OF i] show ?thesis
  proof (elim disjE exE conjE)
    assume a: "s1 = invoke_callback cb True ?s0"
    have e: "sent_events (added s s') = [] \<or> sent_events (added s s') = [(empty_event, None)]"
      using s' a by (auto simp: invoke_callback_def SendEvent_def added_def)
    have r': "response_id s' = response_id s" and p': "pending_responses s' = pending_responses s"
      using s' a by (auto simp: invoke_callback_def SendEvent_def)
    have f1: "ledger_inv s'" using inv by (simp add: ledger_inv_def r' p')
    have f2: "response_id s \<le> response_id s'" by (simp add: r')
    have f3: "\<forall>rid. pending_responses s rid \<noteq> None \<longrightarrow>
        pending_responses s' rid = pending_responses s rid" by (simp add: p')
    have f4: "\<forall>ev rid. (ev, Some rid) \<in> set (sent_events (added s s')) \<longrightarrow>
            response_id s < rid \<and> rid = response_id s' \<and> rid \<noteq> 0 \<and>
            pending_responses s rid = None \<and> pending_responses s' rid = Some cb"
      using e by auto
    show ?thesis
    proof (intro conjI)
      show "ledger_inv s'" by (rule f1)
      show "response_id s \<le> response_id s'" by (rule f2)
      show "\<forall>rid. pending_responses s rid \<noteq> None \<longrightarrow>
        pending_responses s' rid = pending_responses s rid" by (rule f3)
      show "\<forall>ev rid. (ev, Some rid) \<in> set (sent_events (added s s')) \<longrightarrow>
            response_id s < rid \<and> rid = response_id s' \<and> rid \<noteq> 0 \<and>
            pending_responses s rid = None \<and> pending_responses s' rid = Some cb" by (rule f4)
    qed
  next
    fix ty rlk elr bytes pre
    assume tr: "trace s1 = trace ?s0 @ pre @
        [Sent \<lparr>type = ty, physical = GetPhysicalKey d sc ext, logical = rlk,
               character = bytes, synthesized = False\<rparr> (Some (response_id ?s0 + 1))]"
      and pre: "\<forall>e \<in> set pre. \<exists>ev. e = Sent ev None \<and> synthesized ev \<and> character ev = []"
      and rid: "response_id s1 = response_id ?s0 + 1"
      and pend: "pending_responses s1 = (pending_responses ?s0)(response_id ?s0 + 1 \<mapsto> cb)"
    have r': "response_id s' = ?n" and p': "pending_responses s' = (pending_responses s)(?n \<mapsto> cb)"
      using s' rid pend by (auto simp: SendEvent_def)
    have "\<exists>tl. trace s' = trace s @ pre @
        [Sent \<lparr>type = ty, physical = GetPhysicalKey d sc ext, logical = rlk,
               character = bytes, synthesized = False\<rparr> (Some ?n)] @ tl \<and>
        (tl = [] \<or> tl = [Sent empty_event None])"
      using s' tr by (auto simp: SendEvent_def)
    then obtain tl where ad: "added s s' = pre @
        [Sent \<lparr>type = ty, physical = GetPhysicalKey d sc ext, logical = rlk,
               character = bytes, synthesized = False\<rparr> (Some ?n)] @ tl"
      and tl: "tl = [] \<or> tl = [Sent empty_event None]"
      using added_append by blast
    have ids: "\<And>ev r. (ev, Some r) \<in> set (sent_events (added s s')) \<Longrightarrow> r = ?n"
      using sent_events_synth_None [OF pre] tl
      by (auto simp: ad sent_events_append)
    have n0: "?n \<noteq> 0" using lt by auto
    have invd: "\<And>x. x \<in> dom (pending_responses s) \<Longrightarrow> x \<noteq> 0 \<and> x \<le> response_id s"
      using inv by (simp add: ledger_inv_def)
    have f1: "ledger_inv s'"
      unfolding ledger_inv_def
    proof (intro conjI ballI)
      show "response_id s' \<noteq> 0" using n0 r' by simp
    next
      fix r assume "r \<in> dom (pending_responses s')"
      then have "r = ?n \<or> r \<in> dom (pending_responses s)"
        by (auto simp: p' split: if_splits)
      then show "r \<noteq> 0"
      proof
        assume "r = ?n" then show ?thesis using n0 by simp
      next
        assume "r \<in> dom (pending_responses s)"
        then show ?thesis using invd by simp
      qed
    next
      fix r assume "r \<in> dom (pending_responses s')"
      then have "r = ?n \<or> r \<in> dom (pending_responses s)"
        by (auto simp: p' split: if_splits)
      then have "r \<le> ?n"
      proof
        assume "r = ?n" then show ?thesis by simp
      next
        assume "r \<in> dom (pending_responses s)"
        then have "r \<le> response_id s" using invd by simp
        also have "response_id s \<le> ?n" using lt by (rule less_imp_le)
        finally show ?thesis .
      qed
      then show "r \<le> response_id s'" using r' by simp
    qed
    have f3: "\<forall>rid. pending_responses s rid \<noteq> None \<longrightarrow>
        pending_responses s' rid = pending_responses s rid"
      using fresh by (auto simp: p')
    have f2: "response_id s \<le> response_id s'" using lt r' by simp
    have f4: "\<forall>ev rid. (ev, Some rid) \<in> set (sent_events (added s s')) \<longrightarrow>
            response_id s < rid \<and> rid = response_id s' \<and> rid \<noteq> 0 \<and>
            pending_responses s rid = None \<and> pending_responses s' rid = Some cb"
    proof (intro allI impI)
      fix ev rid assume "(ev, Some rid) \<in> set (sent_events (added s s'))"
      then have "rid = ?n" by (rule ids)
      then show "response_id s < rid \<and> rid = response_id s' \<and> rid \<noteq> 0 \<and>
            pending_responses s rid = None \<and> pending_responses s' rid = Some cb"
        using lt r' n0 fresh p' by simp
    qed
    show ?thesis
    proof (intro conjI)
      show "ledger_inv s'" by (rule f1)
      show "response_id s \<le> response_id s'" by (rule f2)
      show "\<forall>rid. pending_responses s rid \<noteq> None \<longrightarrow>
        pending_responses s' rid = pending_responses s rid" by (rule f3)
      show "\<forall>ev rid. (ev, Some rid) \<in> set (sent_events (added s s')) \<longrightarrow>
            response_id s < rid \<and> rid = response_id s' \<and> rid \<noteq> 0 \<and>
            pending_responses s rid = None \<and> pending_responses s' rid = Some cb" by (rule f4)
    qed
  qed
qed

lemma HandleResponse_ledger:
  assumes "ledger_inv s" and "HandleResponse h rid s = Inr s'"
  shows "ledger_inv s' \<and> response_id s' = response_id s"
proof -
  from assms(2) obtain cb where "pending_responses s rid = Some cb"
    and s': "s' = invoke_callback cb h (s\<lparr>pending_responses := (pending_responses s)(rid := None)\<rparr>)"
    by (cases "pending_responses s rid") (simp_all add: HandleResponse_def)
  have r: "response_id s' = response_id s"
    and p: "pending_responses s' = (pending_responses s)(rid := None)"
    by (simp_all add: s' invoke_callback_def)
  have sub: "dom (pending_responses s') \<subseteq> dom (pending_responses s)"
    by (simp add: p)
  have "\<And>x. x \<in> dom (pending_responses s') \<Longrightarrow> x \<noteq> 0 \<and> x \<le> response_id s"
  proof -
    fix x assume "x \<in> dom (pending_responses s')"
    with sub have "x \<in> dom (pending_responses s)" by (rule subsetD)
    with assms(1) show "x \<noteq> 0 \<and> x \<le> response_id s"
      unfolding ledger_inv_def by (elim conjE) (erule bspec)
  qed
  moreover have "response_id s \<noteq> 0" using assms(1) by (simp add: ledger_inv_def)
  ultimately show ?thesis by (simp add: ledger_inv_def r)
qed

lemma HandleResponse_pending:
  assumes "pending_responses s rid = Some cb"
  shows "HandleResponse h rid s =
           Inr (s\<lparr>pending_responses := (pending_responses s)(rid := None),
                  trace := trace s @ [Called cb h]\<rparr>)"
  using assms by (simp add: HandleResponse_def invoke_callback_def)

lemma constructor_ledger:
  "response_id (KeyboardKeyEmbedderHandler d g b) = 1 \<and> ledger_inv (KeyboardKeyEmbedderHandler d g b)"
  by (simp add: KeyboardKeyEmbedderHandler_def ledger_inv_def)

subsection \<open>Response ids over a run\<close>

lemma tracked_ids_append: "tracked_ids (xs @ ys) = tracked_ids xs @ tracked_ids ys"
  by (induction xs rule: tracked_ids.induct) simp_all

lemma tracked_ids_synth:
  assumes "\<forall>e \<in> set pre. \<exists>ev. e = Sent ev None \<and> synthesized ev \<and> character ev = []"
  shows "tracked_ids pre = []"
  using assms by (induction pre rule: tracked_ids.induct) auto

lemma KeyboardHook_ids:
  assumes "KeyboardHook d g key sc act ch ext wd cb s = Inr s'"
  shows "\<exists>new. trace s' = trace s @ new \<and>
           (tracked_ids new = [] \<and> response_id s' = response_id s \<or>
            tracked_ids new = [response_id s + 1] \<and> response_id s' = response_id s + 1)"
proof -
  let ?s0 = "s\<lparr>sent_any_events := False\<rparr>"
  from KeyboardHook_Inr [OF assms] obtain s1 where
    i: "KeyboardHookImpl d g key sc act ch ext wd cb ?s0 = Inr s1"
    and s': "s' = s1 \<or> s' = SendEvent empty_event None s1" by blast
  from s' obtain tl where tl: "trace s' = trace s1 @ tl" "tracked_ids tl = []"
    and r': "response_id s' = response_id s1"
    by (auto simp: SendEvent_def)
  from KeyboardHookImpl_shape [OF i] show ?thesis
  proof (elim disjE exE conjE)
    assume a: "s1 = invoke_callback cb True ?s0"
    have "trace s' = trace s @ (Called cb True # tl)"
      using a tl by (simp add: invoke_callback_def)
    moreover have "tracked_ids (Called cb True # tl) = []" using tl by simp
    moreover have "response_id s' = response_id s" using a r' by (simp add: invoke_callback_def)
    ultimately show ?thesis by blast
  next
    fix ty rlk elr bytes pre
    assume tr: "trace s1 = trace ?s0 @ pre @
        [Sent \<lparr>type = ty, physical = GetPhysicalKey d sc ext, logical = rlk,
               character = bytes, synthesized = False\<rparr> (Some (response_id ?s0 + 1))]"
      and pre: "\<forall>e \<in> set pre. \<exists>ev. e = Sent ev None \<and> synthesized ev \<and> character ev = []"
      and rid: "response_id s1 = response_id ?s0 + 1"
    let ?new = "pre @
        [Sent \<lparr>type = ty, physical = GetPhysicalKey d sc ext, logical = rlk,
               character = bytes, synthesized = False\<rparr> (Some (response_id s + 1))] @ tl"
    have "trace s' = trace s @ ?new" using tr tl by simp
    moreover have "tracked_ids ?new = [response_id s + 1]"
      using tracked_ids_synth [OF pre] tl by (simp add: tracked_ids_append)
    moreover have "response_id s' = response_id s + 1" using rid r' by simp
    ultimately show ?thesis by blast
  qed
qed

lemma unat_succ64:
  assumes "unat (x :: 64 word) + 1 < 2 ^ 64"
  shows "x \<noteq> - 1" "unat (x + 1) = unat x + 1"
proof -
  show n: "x \<noteq> - 1"
  proof
    assume "x = - 1"
    then have "unat x = 2 ^ 64 - 1"
      by (simp add: unsigned_minus_1_eq_mask mask_eq_exp_minus_1)
    with assms show False by simp
  qed
  have "x + 1 \<noteq> 0" using n max_word_wrap by blast
  then show "unat (x + 1) = unat x + 1" by (metis unatSuc add.commute Suc_eq_plus1)
qed

lemma run_ids:
  assumes "run d cs s = Inr s'"
    and "unat (response_id s) + length cs < 2 ^ 64"
    and "ledger_inv s"
    and "sorted_wrt (<) (tracked_ids (trace s))"
    and "\<forall>r \<in> set (tracked_ids (trace s)). lo < r \<and> r \<le> response_id s"
    and "lo \<le> response_id s"
  shows "ledger_inv s' \<and> sorted_wrt (<) (tracked_ids (trace s')) \<and>
         (\<forall>r \<in> set (tracked_ids (trace s')). lo < r \<and> r \<le> response_id s') \<and>
         unat (response_id s') \<le> unat (response_id s) + length cs"
  using assms
proof (induction cs arbitrary: s)
  case Nil
  then show ?case by simp
next
  case (Cons c cs)
  show ?case
  proof (cases c)
    case (KeyInput g key sc act ch ext wd cb)
    with Cons.prems(1) obtain s1 where
      h: "KeyboardHook d g key sc act ch ext wd cb s = Inr s1" and r: "run d cs s1 = Inr s'"
      by (auto split: sum.splits)
    have b: "unat (response_id s) + 1 < 2 ^ 64" using Cons.prems(2) by simp
    have nw: "response_id s \<noteq> - 1" and su: "unat (response_id s + 1) = unat (response_id s) + 1"
      using unat_succ64 [OF b] by simp_all
    have lt: "response_id s < response_id s + 1" using nw by (rule word64_less_succ)
    have inv1: "ledger_inv s1"
      using KeyboardHook_ledger [OF Cons.prems(3) nw h] by simp
    from KeyboardHook_ids [OF h] obtain new where
      tr: "trace s1 = trace s @ new"
      and cases: "tracked_ids new = [] \<and> response_id s1 = response_id s \<or>
            tracked_ids new = [response_id s + 1] \<and> response_id s1 = response_id s + 1"
      by blast
    have le1: "response_id s \<le> response_id s1" using cases lt by auto
    have u1: "unat (response_id s1) \<le> unat (response_id s) + 1" using cases su by auto
    have so1: "sorted_wrt (<) (tracked_ids (trace s1))"
    proof -
      have "\<forall>x \<in> set (tracked_ids (trace s)). \<forall>y \<in> set (tracked_ids new). x < y"
      proof (intro ballI)
        fix x y assume x: "x \<in> set (tracked_ids (trace s))" and y: "y \<in> set (tracked_ids new)"
        from y cases have "y = response_id s + 1" by auto
        moreover from x Cons.prems(5) have "x \<le> response_id s" by simp
        ultimately show "x < y" using lt by simp
      qed
      moreover have "sorted_wrt (<) (tracked_ids new)" using cases by auto
      ultimately show ?thesis
        using Cons.prems(4) by (simp add: tr tracked_ids_append sorted_wrt_append)
    qed
    have bd1: "\<forall>r \<in> set (tracked_ids (trace s1)). lo < r \<and> r \<le> response_id s1"
    proof
      fix r assume "r \<in> set (tracked_ids (trace s1))"
      then have "r \<in> set (tracked_ids (trace s)) \<or> r \<in> set (tracked_ids new)"
        by (simp add: tr tracked_ids_append)
      then show "lo < r \<and> r \<le> response_id s1"
      proof
        assume "r \<in> set (tracked_ids (trace s))"
        with Cons.prems(5) have "lo < r" "r \<le> response_id s" by simp_all
        with le1 show ?thesis by simp
      next
        assume "r \<in> set (tracked_ids new)"
        with cases have r: "r = response_id s + 1" "response_id s1 = response_id s + 1" by auto
        have "lo < response_id s + 1" using Cons.prems(6) lt by simp
        with r show ?thesis by simp
      qed
    qed
    have lo1: "lo \<le> response_id s1" using Cons.prems(6) le1 by simp
    have b1: "unat (response_id s1) + length cs < 2 ^ 64" using u1 Cons.prems(2) by simp
    from Cons.IH [OF r b1 inv1 so1 bd1 lo1] u1 show ?thesis by simp
  next
    case (Acknowledge handled rid)
    with Cons.prems(1) obtain s1 where
      h: "HandleResponse handled rid s = Inr s1" and r: "run d cs s1 = Inr s'"
      by (auto split: sum.splits)
    from HandleResponse_ledger [OF Cons.prems(3) h]
    have inv1: "ledger_inv s1" and r1: "response_id s1 = response_id s" by simp_all
    from h obtain cb where t1: "trace s1 = trace s @ [Called cb handled]"
      by (auto simp: HandleResponse_def invoke_callback_def split: option.splits)
    have ids: "tracked_ids (trace s1) = tracked_ids (trace s)"
      by (simp add: t1 tracked_ids_append)
    have b1: "unat (response_id s1) + length cs < 2 ^ 64" using Cons.prems(2) r1 by simp
    from Cons.IH [OF r b1 inv1] Cons.prems(4,5,6) ids r1 show ?thesis by simp
  qed
qed

subsection \<open>The character of the primary event\<close>

lemma ConvertChar32ToUtf8_no_NUL:
  assumes "ConvertChar32ToUtf8 ch = Inr bs" and "ch \<noteq> 0"
  shows "c_str bs = bs"
proof -
  from assms(1) have r: "ch \<le> 0x10FFFF"
    by (simp add: ConvertChar32ToUtf8_def split: if_splits)
  have p: "0 < unat ch" using assms(2) by (simp add: unat_gt_0)
  from ConvertChar32ToUtf8_bytes [OF r] assms(1)
  have m: "map unat bs =
             (if unat ch < 0x80 then [unat ch]
              else if unat ch < 0x800 then [0xC0 + unat ch div 64, 0x80 + unat ch mod 64]
              else if unat ch < 0x10000 then
                [0xE0 + unat ch div 4096, 0x80 + (unat ch div 64) mod 64, 0x80 + unat ch mod 64]
              else
                [0xF0 + unat ch div 262144, 0x80 + (unat ch div 4096) mod 64,
                 0x80 + (unat ch div 64) mod 64, 0x80 + unat ch mod 64])"
    by simp
  have "0 \<notin> set (map unat bs)" unfolding m using p by simp
  then have "\<forall>b \<in> set bs. b \<noteq> 0" by (auto simp: image_iff)
  then show ?thesis by (simp add: c_str_def)
qed

lemma ConvertUtf32ToUtf8_Inr:
  assumes "ConvertUtf32ToUtf8 ch = Inr bytes"
  shows "\<exists>bs. ConvertChar32ToUtf8 ch = Inr bs \<and> bytes = c_str bs \<and>
           (ch \<noteq> 0 \<longrightarrow> bytes = bs) \<and> length bytes \<le> 4"
proof (cases "ch = 0")
  case True
  with assms have "bytes = []" by (simp add: ConvertUtf32ToUtf8_def)
  moreover have "ConvertChar32ToUtf8 0 = Inr [0]" by (simp add: ConvertChar32ToUtf8_def)
  ultimately show ?thesis using True by (simp add: c_str_def)
next
  case False
  with assms obtain bs where c: "ConvertChar32ToUtf8 ch = Inr bs" and b: "bytes = c_str bs"
    by (auto simp: ConvertUtf32ToUtf8_def strcpy_s_def split: sum.splits if_splits)
  have "c_str bs = bs" using c False by (rule ConvertChar32ToUtf8_no_NUL)
  moreover have "length bs \<le> 4" using ConvertChar32ToUtf8_length [OF c] by simp
  ultimately show ?thesis using c b by simp
qed

lemma KeyboardHookImpl_primary:
  assumes i: "KeyboardHookImpl d g key sc act ch ext wd cb s = Inr s'"
    and m: "(ev, Some rid) \<in> set (sent_events (added s s'))"
  shows "\<exists>ty rlk elr.
           classify (act = WM_KEYDOWN \<or> act = WM_SYSKEYDOWN)
             (pressingRecords s (GetPhysicalKey d sc ext) \<noteq> None) wd
             (case pressingRecords s (GetPhysicalKey d sc ext) of None \<Rightarrow> 0 | Some v \<Rightarrow> v)
             (GetLogicalKey d key ext sc) (UndeadChar d ch) =
               Inr (Some (ty, rlk, elr, character ev)) \<and>
           rlk \<noteq> ucast VK_PROCESSKEY \<and> rid = response_id s + 1 \<and>
           ev = \<lparr>type = ty, physical = GetPhysicalKey d sc ext, logical = rlk,
                 character = character ev, synthesized = False\<rparr>"
  using KeyboardHookImpl_shape [OF i]
proof (elim disjE exE conjE)
  assume "s' = invoke_callback cb True s"
  then have "sent_events (added s s') = []" by (simp add: invoke_callback_def added_def)
  with m show ?thesis by simp
next
  fix ty rlk elr bytes pre
  assume c: "classify (act = WM_KEYDOWN \<or> act = WM_SYSKEYDOWN)
         (pressingRecords s (GetPhysicalKey d sc ext) \<noteq> None) wd
         (case pressingRecords s (GetPhysicalKey d sc ext) of None \<Rightarrow> 0 | Some v \<Rightarrow> v)
         (GetLogicalKey d key ext sc) (UndeadChar d ch) = Inr (Some (ty, rlk, elr, bytes))"
    and ime: "rlk \<noteq> ucast VK_PROCESSKEY"
    and tr: "trace s' = trace s @ pre @
        [Sent \<lparr>type = ty, physical = GetPhysicalKey d sc ext, logical = rlk,
               character = bytes, synthesized = False\<rparr> (Some (response_id s + 1))]"
    and pre: "\<forall>e \<in> set pre. \<exists>ev. e = Sent ev None \<and> synthesized ev \<and> character ev = []"
  let ?e = "\<lparr>type = ty, physical = GetPhysicalKey d sc ext, logical = rlk,
               character = bytes, synthesized = False\<rparr>"
  from added_append [OF tr] m
  have "(ev, Some rid) \<in> set (sent_events pre) \<or> (ev, Some rid) = (?e, Some (response_id s + 1))"
    by (auto simp: sent_events_append)
  then have e: "ev = ?e" and r: "rid = response_id s + 1"
    using sent_events_synth_None [OF pre] by auto
  show ?thesis
    apply (rule exI [of _ ty], rule exI [of _ rlk], rule exI [of _ elr])
    using c ime r by (simp add: e)
qed

subsection \<open>The registry as a map\<close>

lemma map_of_update_found:
  "map_of (update_found k f kvs) k' =
     (if k' = k then map_option f (map_of kvs k) else map_of kvs k')"
  by (induction kvs) auto

lemma map_of_same_key:
  assumes "list_all2 (\<lambda>kv kv'. fst kv' = fst kv \<and> same_key (snd kv) (snd kv')) xs ys"
  shows "rel_option same_key (map_of xs k) (map_of ys k)"
  using assms by (induction rule: list_all2_induct) auto

lemma InitCriticalKeys_list:
  "InitCriticalKeys d g =
     [(VK_CAPITAL, createCheckedKey d g VK_CAPITAL False True True),
      (VK_NUMLOCK, createCheckedKey d g VK_NUMLOCK True True True),
      (VK_SCROLL, createCheckedKey d g VK_SCROLL False True True),
      (VK_LSHIFT, createCheckedKey d g VK_LSHIFT False True False),
      (VK_RSHIFT, createCheckedKey d g VK_RSHIFT False True False),
      (VK_LCONTROL, createCheckedKey d g VK_LCONTROL False True False),
      (VK_RCONTROL, createCheckedKey d g VK_RCONTROL True True False)]"
  by (simp add: InitCriticalKeys_def vk_defs)

subsection \<open>A down transition without a record succeeds\<close>

lemma keys_ok_update_found:
  assumes "keys_ok kvs" and "l \<noteq> 0"
  shows "keys_ok (update_found k (\<lambda>ck. ck\<lparr>physical_key := p, logical_key := l\<rparr>) kvs)"
  using assms by (induction kvs) (auto simp: keys_ok_def)

lemma KeyboardHookImpl_fresh_down:
  assumes down: "act = WM_KEYDOWN \<or> act = WM_SYSKEYDOWN"
    and none: "pressingRecords s (GetPhysicalKey d sc ext) = None"
    and ime: "GetLogicalKey d key ext sc \<noteq> ucast VK_PROCESSKEY"
    and nz: "GetLogicalKey d key ext sc \<noteq> 0"
    and chr: "UndeadChar d ch \<le> 0x10FFFF"
    and ok: "keys_ok (critical_keys s)"
  shows "\<exists>s' pre bytes.
      KeyboardHookImpl d g key sc act ch ext wd cb s = Inr s' \<and>
      trace s' = trace s @ pre @
        [Sent \<lparr>type = kFlutterKeyEventTypeDown, physical = GetPhysicalKey d sc ext,
               logical = GetLogicalKey d key ext sc, character = bytes, synthesized = False\<rparr>
           (Some (response_id s + 1))] \<and>
      (\<forall>e \<in> set pre. \<exists>ev. e = Sent ev None \<and> synthesized ev \<and> character ev = []) \<and>
      ConvertUtf32ToUtf8 (UndeadChar d ch) = Inr bytes \<and>
      pressingRecords s' (GetPhysicalKey d sc ext) = Some (GetLogicalKey d key ext sc)"
proof -
  let ?p = "GetPhysicalKey d sc ext"
  let ?l = "GetLogicalKey d key ext sc"
  let ?s0 = "UpdateLastSeenCritialKey key ?p ?l s"
  from ConvertUtf32ToUtf8_total [OF chr] obtain bytes where
    b: "ConvertUtf32ToUtf8 (UndeadChar d ch) = Inr bytes" by blast
  have c: "classify (act = WM_KEYDOWN \<or> act = WM_SYSKEYDOWN) (pressingRecords s ?p \<noteq> None) wd
             (case pressingRecords s ?p of None \<Rightarrow> 0 | Some v \<Rightarrow> v) ?l (UndeadChar d ch) =
           Inr (Some (kFlutterKeyEventTypeDown, ?l, ?l, bytes))"
    using down none b by (simp add: classify_def)
  have ok0: "keys_ok (critical_keys ?s0)"
    unfolding UpdateLastSeenCritialKey_def using keys_ok_update_found [OF ok nz] by simp
  from toggled_pass_total [OF ok0] obtain s1 where
    t: "SynchronizeCritialToggledStates g key True ?s0 = Inr s1" by blast
  have ok1: "keys_ok (critical_keys s1)"
    using toggled_pass [OF t] ok0 keys_ok_same by blast
  from pressed_pass_total [OF ok1] obtain s2 where
    p: "SynchronizeCritialPressedStates g key True s1 = Inr s2" by blast
  let ?s3 = "s2\<lparr>pressingRecords := (pressingRecords s2)(?p \<mapsto> ?l)\<rparr>"
  have r: "settle_record ?p ?l s2 = Inr ?s3" using nz by (simp add: settle_record_def)
  let ?e = "\<lparr>type = kFlutterKeyEventTypeDown, physical = ?p, logical = ?l,
             character = bytes, synthesized = False\<rparr>"
  let ?s' = "SendEvent ?e (Some (response_id ?s3 + 1))
       (?s3\<lparr>response_id := response_id ?s3 + 1,
            pending_responses := (pending_responses ?s3)(response_id ?s3 + 1 \<mapsto> cb)\<rparr>)"
  have i: "KeyboardHookImpl d g key sc act ch ext wd cb s = Inr ?s'"
    unfolding KeyboardHookImpl_def Let_def using down c ime t p r by auto
  from toggled_pass [OF t] pressed_pass [OF p] have sy: "synced ?s0 s2"
    using synced_trans by blast
  then obtain pre where
    rid: "response_id s2 = response_id s"
    and tr: "trace s2 = trace s @ pre"
    and ev: "\<forall>e \<in> set pre. \<exists>ev. e = Sent ev None \<and> synthesized ev \<and> character ev = []"
    unfolding synced_def UpdateLastSeenCritialKey_def by auto
  have "trace ?s' = trace s @ pre @ [Sent ?e (Some (response_id s + 1))]"
    by (simp add: SendEvent_def tr rid)
  moreover have "pressingRecords ?s' ?p = Some ?l" by (simp add: SendEvent_def)
  ultimately show ?thesis using i ev b by blast
qed

subsection \<open>Records without a zero logical key, and the replayed table\<close>

lemma ran_upd_D: "x \<in> ran (m(k \<mapsto> v)) \<Longrightarrow> x = v \<or> x \<in> ran m"
  by (auto simp: ran_def split: if_splits)

lemma ran_del_D: "x \<in> ran (m(k := None)) \<Longrightarrow> x \<in> ran m"
  by (auto simp: ran_def split: if_splits)

lemma toggled_body_records:
  assumes "toggled_body g t dn vk ki s = Inr (ki', s')" and "0 \<notin> ran (pressingRecords s)"
  shows "0 \<notin> ran (pressingRecords s')"
  using assms
  by (auto simp: toggled_body_def Let_def SendEvent_def split: if_splits dest!: ran_upd_D)

lemma pressed_body_records:
  assumes "pressed_body g t wc vk ki s = Inr (ki', s')" and "0 \<notin> ran (pressingRecords s)"
  shows "0 \<notin> ran (pressingRecords s')"
  using assms
  by (auto simp: pressed_body_def Let_def SendEvent_def split: if_splits
      dest!: ran_upd_D ran_del_D)

lemma toggled_pass_records:
  assumes "SynchronizeCritialToggledStates g t dn s = Inr s'" and "0 \<notin> ran (pressingRecords s)"
  shows "0 \<notin> ran (pressingRecords s')"
proof -
  from assms(1) obtain keys' s1 where
    l: "for_critical_keys (toggled_body g t dn) (critical_keys s) s = Inr (keys', s1)"
    and s': "s' = s1\<lparr>critical_keys := keys'\<rparr>"
    by (auto simp: SynchronizeCritialToggledStates_def split: sum.splits prod.splits)
  have "(0 \<notin> ran (pressingRecords s) \<longrightarrow> 0 \<notin> ran (pressingRecords s1)) \<and>
        list_all2 (\<lambda>kv kv'. fst kv' = fst kv \<and> True) (critical_keys s) keys'"
    by (rule for_critical_keys_rel
          [where R = "\<lambda>a b. 0 \<notin> ran (pressingRecords a) \<longrightarrow> 0 \<notin> ran (pressingRecords b)"
             and Q = "\<lambda>_ _. True", OF _ _ _ l])
       (auto dest: toggled_body_records)
  then show ?thesis using assms(2) s' by simp
qed

lemma pressed_pass_records:
  assumes "SynchronizeCritialPressedStates g t wc s = Inr s'" and "0 \<notin> ran (pressingRecords s)"
  shows "0 \<notin> ran (pressingRecords s')"
proof -
  from assms(1) obtain keys' s1 where
    l: "for_critical_keys (pressed_body g t wc) (critical_keys s) s = Inr (keys', s1)"
    and s': "s' = s1\<lparr>critical_keys := keys'\<rparr>"
    by (auto simp: SynchronizeCritialPressedStates_def split: sum.splits prod.splits)
  have "(0 \<notin> ran (pressingRecords s) \<longrightarrow> 0 \<notin> ran (pressingRecords s1)) \<and>
        list_all2 (\<lambda>kv kv'. fst kv' = fst kv \<and> True) (critical_keys s) keys'"
    by (rule for_critical_keys_rel
          [where R = "\<lambda>a b. 0 \<notin> ran (pressingRecords a) \<longrightarrow> 0 \<notin> ran (pressingRecords b)"
             and Q = "\<lambda>_ _. True", OF _ _ _ l])
       (auto dest: pressed_body_records)
  then show ?thesis using assms(2) s' by simp
qed

lemma last_logical_record_nonzero:
  assumes "0 \<notin> ran (pressingRecords s)"
  shows "((case pressingRecords s p of None \<Rightarrow> 0 | Some v \<Rightarrow> v) \<noteq> 0) = (pressingRecords s p \<noteq> None)"
    and "pressingRecords s p \<noteq> None \<Longrightarrow>
         pressingRecords s p = Some (case pressingRecords s p of None \<Rightarrow> 0 | Some v \<Rightarrow> v)"
  using assms by (auto simp: ran_def split: option.splits)

lemma KeyboardHookImpl_records:
  assumes i: "KeyboardHookImpl d g key sc act ch ext wd cb s = Inr s'"
    and inv: "0 \<notin> ran (pressingRecords s)"
    and nz: "GetLogicalKey d key ext sc \<noteq> 0"
  shows "0 \<notin> ran (pressingRecords s')"
proof (cases "s' = invoke_callback cb True s")
  case True
  then show ?thesis using inv by (simp add: invoke_callback_def)
next
  case False
  let ?p = "GetPhysicalKey d sc ext"
  let ?last = "case pressingRecords s ?p of None \<Rightarrow> 0 | Some v \<Rightarrow> v"
  from KeyboardHookImpl_Inr [OF i] False obtain ty rlk elr bytes s1 s2 s3 where
    c: "classify (act = WM_KEYDOWN \<or> act = WM_SYSKEYDOWN) (pressingRecords s ?p \<noteq> None) wd
          ?last (GetLogicalKey d key ext sc) (UndeadChar d ch) = Inr (Some (ty, rlk, elr, bytes))"
    and t: "SynchronizeCritialToggledStates g key (ty = kFlutterKeyEventTypeDown)
              (UpdateLastSeenCritialKey key ?p rlk s) = Inr s1"
    and p: "SynchronizeCritialPressedStates g key (ty \<noteq> kFlutterKeyEventTypeRepeat) s1 = Inr s2"
    and r: "settle_record ?p elr s2 = Inr s3"
    and s': "s' = SendEvent
                    \<lparr>type = ty, physical = ?p, logical = rlk,
                     character = bytes, synthesized = False\<rparr>
                    (Some (response_id s3 + 1))
                    (s3\<lparr>response_id := response_id s3 + 1,
                        pending_responses := (pending_responses s3)(response_id s3 + 1 \<mapsto> cb)\<rparr>)"
    by blast
  have "0 \<notin> ran (pressingRecords (UpdateLastSeenCritialKey key ?p rlk s))"
    using inv by (simp add: UpdateLastSeenCritialKey_def)
  then have "0 \<notin> ran (pressingRecords s1)" by (rule toggled_pass_records [OF t])
  then have i2: "0 \<notin> ran (pressingRecords s2)" by (rule pressed_pass_records [OF p])
  from r have "pressingRecords s3 = (pressingRecords s2)(?p \<mapsto> elr) \<and> elr \<noteq> 0 \<or>
               pressingRecords s3 = (pressingRecords s2)(?p := None)"
    by (auto simp: settle_record_def split: if_splits option.splits)
  then have "0 \<notin> ran (pressingRecords s3)"
    using i2 by (auto dest!: ran_upd_D ran_del_D)
  then show ?thesis by (simp add: s' SendEvent_def)
qed

lemma KeyboardHookImpl_replay:
  assumes i: "KeyboardHookImpl d g key sc act ch ext wd cb s = Inr s'"
    and inv: "0 \<notin> ran (pressingRecords s)"
    and nz: "GetLogicalKey d key ext sc \<noteq> 0"
  shows "pressingRecords s' = foldl apply_event (pressingRecords s) (sent_events (added s s'))"
  using KeyboardHookImpl_shape [OF i]
proof (elim disjE exE conjE)
  assume "s' = invoke_callback cb True s"
  then show ?thesis by (simp add: invoke_callback_def added_def)
next
  fix ty rlk elr bytes pre
  let ?p = "GetPhysicalKey d sc ext"
  let ?last = "case pressingRecords s ?p of None \<Rightarrow> 0 | Some v \<Rightarrow> v"
  let ?tbl = "foldl apply_event (pressingRecords s) (sent_events pre)"
  let ?e = "\<lparr>type = ty, physical = ?p, logical = rlk, character = bytes, synthesized = False\<rparr>"
  assume c: "classify (act = WM_KEYDOWN \<or> act = WM_SYSKEYDOWN) (pressingRecords s ?p \<noteq> None) wd
          ?last (GetLogicalKey d key ext sc) (UndeadChar d ch) = Inr (Some (ty, rlk, elr, bytes))"
    and tr: "trace s' = trace s @ pre @ [Sent ?e (Some (response_id s + 1))]"
    and tb: "if elr \<noteq> 0 then pressingRecords s' = ?tbl(?p \<mapsto> elr)
             else ?tbl ?p \<noteq> None \<and> pressingRecords s' = ?tbl(?p := None)"
  have lz: "pressingRecords s ?p \<noteq> None \<Longrightarrow> ?last \<noteq> 0"
    using last_logical_record_nonzero(1) [OF inv] by simp
  from classify_Some [OF c] lz nz
  have k: "ty = kFlutterKeyEventTypeUp \<and> elr = 0 \<or>
           ty \<noteq> kFlutterKeyEventTypeUp \<and> elr = rlk \<and> elr \<noteq> 0"
    by auto
  have "sent_events (added s s') = sent_events pre @ [(?e, Some (response_id s + 1))]"
    using added_append [OF tr] by (simp add: sent_events_append)
  then have "foldl apply_event (pressingRecords s) (sent_events (added s s')) =
      apply_event ?tbl (?e, Some (response_id s + 1))" by simp
  also have "\<dots> = pressingRecords s'"
    using k tb by (auto simp: apply_event_def)
  finally show ?thesis by simp
qed

lemma KeyboardHookImpl_primary_record:
  assumes i: "KeyboardHookImpl d g key sc act ch ext wd cb s = Inr s'"
    and inv: "0 \<notin> ran (pressingRecords s)"
    and nz: "GetLogicalKey d key ext sc \<noteq> 0"
    and m: "(ev, Some rid) \<in> set (sent_events (added s s'))"
  shows "physical ev = GetPhysicalKey d sc ext \<and>
     (type ev = kFlutterKeyEventTypeDown \<longrightarrow>
        pressingRecords s (GetPhysicalKey d sc ext) = None \<and>
        logical ev = GetLogicalKey d key ext sc \<and>
        pressingRecords s' (GetPhysicalKey d sc ext) = Some (logical ev)) \<and>
     (type ev = kFlutterKeyEventTypeRepeat \<longrightarrow>
        pressingRecords s (GetPhysicalKey d sc ext) = Some (logical ev) \<and>
        pressingRecords s' (GetPhysicalKey d sc ext) = Some (logical ev)) \<and>
     (type ev = kFlutterKeyEventTypeUp \<longrightarrow>
        pressingRecords s (GetPhysicalKey d sc ext) = Some (logical ev) \<and>
        pressingRecords s' (GetPhysicalKey d sc ext) = None)"
proof -
  let ?p = "GetPhysicalKey d sc ext"
  let ?last = "case pressingRecords s ?p of None \<Rightarrow> 0 | Some v \<Rightarrow> v"
  have na: "s' \<noteq> invoke_callback cb True s"
  proof
    assume "s' = invoke_callback cb True s"
    then have "sent_events (added s s') = []" by (simp add: invoke_callback_def added_def)
    with m show False by simp
  qed
  from KeyboardHookImpl_shape [OF i] na obtain ty rlk elr bytes pre where
    c: "classify (act = WM_KEYDOWN \<or> act = WM_SYSKEYDOWN) (pressingRecords s ?p \<noteq> None) wd
          ?last (GetLogicalKey d key ext sc) (UndeadChar d ch) = Inr (Some (ty, rlk, elr, bytes))"
    and tr: "trace s' = trace s @ pre @
         [Sent \<lparr>type = ty, physical = ?p, logical = rlk, character = bytes, synthesized = False\<rparr>
            (Some (response_id s + 1))]"
    and pre: "\<forall>e \<in> set pre. \<exists>ev. e = Sent ev None \<and> synthesized ev \<and> character ev = []"
    and tb: "if elr \<noteq> 0
             then pressingRecords s' = (foldl apply_event (pressingRecords s) (sent_events pre))(?p \<mapsto> elr)
             else foldl apply_event (pressingRecords s) (sent_events pre) ?p \<noteq> None \<and>
                  pressingRecords s' = (foldl apply_event (pressingRecords s) (sent_events pre))(?p := None)"
    by blast
  from added_append [OF tr] m sent_events_synth_None [OF pre]
  have e: "ev = \<lparr>type = ty, physical = ?p, logical = rlk, character = bytes, synthesized = False\<rparr>"
    by (auto simp: sent_events_append)
  have ev: "type ev = ty" "physical ev = ?p" "logical ev = rlk" by (simp_all add: e)
  have after: "pressingRecords s' ?p = (if elr \<noteq> 0 then Some elr else None)"
    using tb by (auto split: if_splits)
  have lz: "pressingRecords s ?p \<noteq> None \<Longrightarrow> ?last \<noteq> 0"
    and ls: "pressingRecords s ?p \<noteq> None \<Longrightarrow> pressingRecords s ?p = Some ?last"
    using last_logical_record_nonzero [OF inv] by simp_all
  have hz: "?last \<noteq> 0 \<Longrightarrow> pressingRecords s ?p \<noteq> None"
    by (auto split: option.splits)
  from classify_Some [OF c]
  have k: "ty = kFlutterKeyEventTypeDown \<Longrightarrow>
             pressingRecords s ?p = None \<and> rlk = GetLogicalKey d key ext sc \<and>
             elr = GetLogicalKey d key ext sc"
    "ty = kFlutterKeyEventTypeRepeat \<Longrightarrow>
             pressingRecords s ?p \<noteq> None \<and> rlk = ?last \<and> elr = ?last"
    "ty = kFlutterKeyEventTypeUp \<Longrightarrow> ?last \<noteq> 0 \<and> rlk = ?last \<and> elr = 0"
    by auto
  show ?thesis
  proof (cases ty)
    case kFlutterKeyEventTypeUp
    with k(3) have "?last \<noteq> 0" "rlk = ?last" "elr = 0" by simp_all
    then show ?thesis using kFlutterKeyEventTypeUp ev after hz ls by simp
  next
    case kFlutterKeyEventTypeDown
    with k(1) have "pressingRecords s ?p = None" "rlk = GetLogicalKey d key ext sc"
      "elr = GetLogicalKey d key ext sc" by simp_all
    then show ?thesis using kFlutterKeyEventTypeDown ev after nz by simp
  next
    case kFlutterKeyEventTypeRepeat
    with k(2) have "pressingRecords s ?p \<noteq> None" "rlk = ?last" "elr = ?last" by simp_all
    then show ?thesis using kFlutterKeyEventTypeRepeat ev after lz ls by simp
  qed
qed

subsection \<open>The first key of the toggle pass\<close>






section \<open>Absorbed transitions\<close>

text \<open>
  Claim C3. A down transition that is not a repeat, on a physical key already recorded
  down, and an up transition on a physical key that is not recorded down, are absorbed
  by \<open>KeyboardHookImpl\<close>: it sends no event and leaves the whole engine as it was (the
  press-state table and the critical-key registry among it); the only effect is one call
  of the caller's callback with \<open>handled = true\<close>. The entry point \<open>KeyboardHook\<close> then
  adds its zero-identifier event (claim C4) and nothing else.
\<close>

theorem absorbed_transitions:
  assumes "(act = WM_KEYDOWN \<or> act = WM_SYSKEYDOWN) \<and>
             pressingRecords s (GetPhysicalKey d sc ext) \<noteq> None \<and> \<not> wd
         \<or> (act = WM_KEYUP \<or> act = WM_SYSKEYUP) \<and>
             pressingRecords s (GetPhysicalKey d sc ext) = None"
  shows "KeyboardHookImpl d g key sc act ch ext wd cb s =
           Inr (s\<lparr>trace := trace s @ [Called cb True]\<rparr>)
       \<and> KeyboardHook d g key sc act ch ext wd cb s =
           Inr (s\<lparr>sent_any_events := True,
                  trace := trace s @ [Called cb True, Sent empty_event None]\<rparr>)"
  using assms
  by (auto simp: KeyboardHook_def KeyboardHookImpl_def classify_def invoke_callback_def
      wm_defs Let_def SendEvent_def)

theorem absorbed_transitions_witness:
  "pressingRecords sample_engine (GetPhysicalKey sample_statics 0x1E False) = None
   \<and> KeyboardHookImpl sample_statics sample_idle 0x41 0x1E WM_KEYUP 0 False False 7 sample_engine =
       Inr (sample_engine\<lparr>trace := [Called 7 True]\<rparr>)
   \<and> pressingRecords (sample_engine\<lparr>pressingRecords := [0x00070004 \<mapsto> 0x61]\<rparr>)
       (GetPhysicalKey sample_statics 0x1E False) = Some 0x61
   \<and> KeyboardHookImpl sample_statics sample_idle 0x41 0x1E WM_KEYDOWN 0x61 False False 7
       (sample_engine\<lparr>pressingRecords := [0x00070004 \<mapsto> 0x61]\<rparr>) =
       Inr (sample_engine\<lparr>pressingRecords := [0x00070004 \<mapsto> 0x61], trace := [Called 7 True]\<rparr>)"
  using absorbed_transitions [of WM_KEYUP sample_engine sample_statics "0x1E" False False
      sample_idle "0x41" 0 7]
    absorbed_transitions [of WM_KEYDOWN "sample_engine\<lparr>pressingRecords := [0x00070004 \<mapsto> 0x61]\<rparr>"
      sample_statics "0x1E" False False sample_idle "0x41" "0x61" 7]
  by (simp add: sample_physical_A sample_engine_fresh)

section \<open>Keys owned by an input method\<close>

text \<open>
  Claim C5. When the logical key of the resulting event is the IME sentinel
  \<open>VK_PROCESSKEY\<close>, the input is ignored: no event is sent, the engine is unchanged and
  the callback is called once with \<open>handled = true\<close>. The three ways to get there are a
  down transition without a record whose resolved logical key is the sentinel, a repeat
  whose recorded logical key is the sentinel, and an up transition whose recorded
  logical key is the sentinel. (On the two down paths the character is converted first,
  so it has to pass the assertion of \<open>ConvertChar32ToUtf8\<close>.)
\<close>

theorem ime_sentinel_ignored:
  assumes "(act = WM_KEYDOWN \<or> act = WM_SYSKEYDOWN) \<and>
             pressingRecords s (GetPhysicalKey d sc ext) = None \<and>
             GetLogicalKey d key ext sc = ucast VK_PROCESSKEY \<and> UndeadChar d ch \<le> 0x10FFFF
         \<or> (act = WM_KEYDOWN \<or> act = WM_SYSKEYDOWN) \<and>
             pressingRecords s (GetPhysicalKey d sc ext) = Some (ucast VK_PROCESSKEY) \<and>
             wd \<and> UndeadChar d ch \<le> 0x10FFFF
         \<or> (act = WM_KEYUP \<or> act = WM_SYSKEYUP) \<and>
             pressingRecords s (GetPhysicalKey d sc ext) = Some (ucast VK_PROCESSKEY)"
  shows "KeyboardHookImpl d g key sc act ch ext wd cb s =
           Inr (s\<lparr>trace := trace s @ [Called cb True]\<rparr>)"
proof -
  have c: "UndeadChar d ch \<le> 0x10FFFF \<Longrightarrow> \<exists>bs. ConvertUtf32ToUtf8 (UndeadChar d ch) = Inr bs"
    by (rule ConvertUtf32ToUtf8_total)
  show ?thesis
    using assms c
    by (auto simp: KeyboardHookImpl_def classify_def invoke_callback_def wm_defs Let_def vk_defs)
qed

theorem ime_sentinel_ignored_witness:
  "pressingRecords sample_engine (GetPhysicalKey sample_statics 0x1E False) = None
   \<and> GetLogicalKey sample_statics VK_PROCESSKEY False 0x1E = ucast VK_PROCESSKEY
   \<and> UndeadChar sample_statics 0x61 \<le> 0x10FFFF
   \<and> KeyboardHookImpl sample_statics sample_idle VK_PROCESSKEY 0x1E WM_KEYDOWN 0x61 False False 7
       sample_engine = Inr (sample_engine\<lparr>trace := [Called 7 True]\<rparr>)"
proof -
  have u: "UndeadChar sample_statics 0x61 = 0x61"
    by (simp add: sample_statics_def)
  show ?thesis
    using ime_sentinel_ignored [of WM_KEYDOWN sample_engine sample_statics "0x1E" False
        VK_PROCESSKEY "0x61" False sample_idle 7]
    by (simp add: sample_engine_fresh u GetLogicalKey_PROCESSKEY)
qed

section \<open>The neutral event of the entry point\<close>

text \<open>
  Claim C4. \<open>KeyboardHook\<close> runs \<open>KeyboardHookImpl\<close> and then looks at what that call
  dispatched. If it dispatched no event at all, neither the primary one nor a
  synthesized one, exactly one event follows: the neutral event, with physical id 0 and
  logical id 0, sent with a null callback and null user data. If it dispatched any
  event, nothing follows.
\<close>

theorem neutral_event_guard:
  assumes "KeyboardHook d g key sc act ch ext wd cb s = Inr s'"
  shows "\<exists>s1. KeyboardHookImpl d g key sc act ch ext wd cb (s\<lparr>sent_any_events := False\<rparr>) = Inr s1 \<and>
           trace s' = trace s1 @
             (if sent_events (added s s1) = [] then [Sent empty_event None] else []) \<and>
           physical empty_event = 0 \<and> logical empty_event = 0"
proof -
  let ?s0 = "s\<lparr>sent_any_events := False\<rparr>"
  from assms obtain s1 where
    i: "KeyboardHookImpl d g key sc act ch ext wd cb ?s0 = Inr s1"
    and s': "s' = (if \<not> sent_any_events s1 then SendEvent empty_event None s1 else s1)"
    by (auto simp: KeyboardHook_def split: sum.splits)
  have "sent_any_events s1 \<longleftrightarrow> sent_events (added ?s0 s1) \<noteq> []"
    by (rule KeyboardHookImpl_flag [OF i]) simp
  moreover have "added ?s0 s1 = added s s1" by (simp add: added_def)
  ultimately show ?thesis
    using i s' by (auto simp: SendEvent_def empty_event_def)
qed

theorem neutral_event_guard_witness:
  "(\<exists>s1. KeyboardHookImpl sample_statics sample_idle 0x41 0x1E WM_KEYUP 0 False False 7
            (sample_engine\<lparr>sent_any_events := False\<rparr>) = Inr s1 \<and>
          trace (projr (KeyboardHook sample_statics sample_idle 0x41 0x1E WM_KEYUP 0 False False 7
                   sample_engine)) =
            trace s1 @ (if sent_events (added sample_engine s1) = []
                        then [Sent empty_event None] else []))
   \<and> trace (projr (KeyboardHook sample_statics sample_idle 0x41 0x1E WM_KEYUP 0 False False 7
               sample_engine)) = [Called 7 True, Sent empty_event None]
   \<and> (\<exists>s1. KeyboardHookImpl sample_statics sample_idle 0x41 0x1E WM_KEYDOWN 0x61 False False 7
            (sample_engine\<lparr>sent_any_events := False\<rparr>) = Inr s1 \<and>
          trace (projr (KeyboardHook sample_statics sample_idle 0x41 0x1E WM_KEYDOWN 0x61 False
                   False 7 sample_engine)) =
            trace s1 @ (if sent_events (added sample_engine s1) = []
                        then [Sent empty_event None] else []))
   \<and> trace (projr (KeyboardHook sample_statics sample_idle 0x41 0x1E WM_KEYDOWN 0x61 False False
               7 sample_engine)) =
       [Sent \<lparr>type = kFlutterKeyEventTypeDown, physical = 0x00070004, logical = 0x61,
               character = [0x61], synthesized = False\<rparr> (Some 2)]"
proof -
  let ?r = "KeyboardHook sample_statics sample_idle 0x41 0x1E WM_KEYUP 0 False False 7 sample_engine"
  let ?q = "KeyboardHook sample_statics sample_idle 0x41 0x1E WM_KEYDOWN 0x61 False False 7
              sample_engine"
  have "\<not> isl ?r" by code_simp
  then have ok: "?r = Inr (projr ?r)" by simp
  have tr: "trace (projr ?r) = [Called 7 True, Sent empty_event None]" by code_simp
  have "\<not> isl ?q" by code_simp
  then have okq: "?q = Inr (projr ?q)" by simp
  have tq: "trace (projr ?q) =
       [Sent \<lparr>type = kFlutterKeyEventTypeDown, physical = 0x00070004, logical = 0x61,
               character = [0x61], synthesized = False\<rparr> (Some 2)]" by code_simp
  have c1: "\<exists>s1. KeyboardHookImpl sample_statics sample_idle 0x41 0x1E WM_KEYUP 0 False False 7
            (sample_engine\<lparr>sent_any_events := False\<rparr>) = Inr s1 \<and>
          trace (projr ?r) =
            trace s1 @ (if sent_events (added sample_engine s1) = []
                        then [Sent empty_event None] else [])"
    using neutral_event_guard [OF ok] by blast
  have c3: "\<exists>s1. KeyboardHookImpl sample_statics sample_idle 0x41 0x1E WM_KEYDOWN 0x61 False False 7
            (sample_engine\<lparr>sent_any_events := False\<rparr>) = Inr s1 \<and>
          trace (projr ?q) =
            trace s1 @ (if sent_events (added sample_engine s1) = []
                        then [Sent empty_event None] else [])"
    using neutral_event_guard [OF okq] by blast
  show ?thesis by (intro conjI) (rule c1, rule tr, rule c3, rule tq)
qed

section \<open>Response identifiers and the pending-response ledger\<close>

text \<open>
  Claim C7. The response counter starts at 1, so the first id handed out is 2. Over
  any life of the engine (calls of \<open>KeyboardHook\<close> and \<open>HandleResponse\<close> in any order,
  fewer than \<open>2^64 - 1\<close> of them, so that the 64-bit counter has not wrapped) the ids
  dispatched with primary events are strictly increasing and greater than 1, and the
  ledger invariant holds. In a single call of \<open>KeyboardHook\<close> from a state with that
  invariant, an id dispatched is greater than the counter before, has no ledger entry
  before the call and has the caller's callback as its entry after it, while the entries
  already pending stay as they are. An acknowledgment for a pending id removes exactly
  that entry and calls the original callback once, with the host's \<open>handled\<close>.
\<close>

theorem response_ids_monotonic:
  "response_id (KeyboardKeyEmbedderHandler d g b) = 1
   \<and> (run d cs (KeyboardKeyEmbedderHandler d g b) = Inr s0 \<and> length cs < 2 ^ 64 - 1 \<longrightarrow>
        sorted_wrt (<) (tracked_ids (trace s0)) \<and>
        (\<forall>r \<in> set (tracked_ids (trace s0)). 1 < r) \<and> ledger_inv s0)
   \<and> (ledger_inv s \<and> response_id s \<noteq> - 1 \<and>
        KeyboardHook d g' key sc act ch ext wd cb s = Inr s' \<longrightarrow>
        response_id s \<le> response_id s' \<and>
        (\<forall>ev rid. (ev, Some rid) \<in> set (sent_events (added s s')) \<longrightarrow>
           response_id s < rid \<and> rid = response_id s' \<and> rid \<noteq> 0 \<and>
           pending_responses s rid = None \<and> pending_responses s' rid = Some cb) \<and>
        (\<forall>rid. pending_responses s rid \<noteq> None \<longrightarrow>
           pending_responses s' rid = pending_responses s rid))
   \<and> (pending_responses t rid' = Some cb' \<longrightarrow>
        HandleResponse h rid' t =
          Inr (t\<lparr>pending_responses := (pending_responses t)(rid' := None),
                 trace := trace t @ [Called cb' h]\<rparr>))"
proof -
  let ?c = "KeyboardKeyEmbedderHandler d g b"
  have p1: "response_id ?c = 1"
    using constructor_ledger by blast
  have p2: "run d cs ?c = Inr s0 \<and> length cs < 2 ^ 64 - 1 \<longrightarrow>
        sorted_wrt (<) (tracked_ids (trace s0)) \<and>
        (\<forall>r \<in> set (tracked_ids (trace s0)). 1 < r) \<and> ledger_inv s0"
  proof
    assume a: "run d cs ?c = Inr s0 \<and> length cs < 2 ^ 64 - 1"
    have inv: "ledger_inv ?c"
      using constructor_ledger by blast
    have tr: "trace ?c = []" by (simp add: KeyboardKeyEmbedderHandler_def)
    have b: "unat (response_id ?c) + length cs < 2 ^ 64" using a p1 by simp
    have ru: "run d cs ?c = Inr s0" using a by simp
    have "ledger_inv s0 \<and> sorted_wrt (<) (tracked_ids (trace s0)) \<and>
          (\<forall>r \<in> set (tracked_ids (trace s0)). 1 < r \<and> r \<le> response_id s0) \<and>
          unat (response_id s0) \<le> unat (response_id ?c) + length cs"
      by (rule run_ids [OF ru b inv]) (simp_all add: tr p1)
    then show "sorted_wrt (<) (tracked_ids (trace s0)) \<and>
          (\<forall>r \<in> set (tracked_ids (trace s0)). 1 < r) \<and> ledger_inv s0" by blast
  qed
  have p3: "ledger_inv s \<and> response_id s \<noteq> - 1 \<and>
        KeyboardHook d g' key sc act ch ext wd cb s = Inr s' \<longrightarrow>
        response_id s \<le> response_id s' \<and>
        (\<forall>ev rid. (ev, Some rid) \<in> set (sent_events (added s s')) \<longrightarrow>
           response_id s < rid \<and> rid = response_id s' \<and> rid \<noteq> 0 \<and>
           pending_responses s rid = None \<and> pending_responses s' rid = Some cb) \<and>
        (\<forall>rid. pending_responses s rid \<noteq> None \<longrightarrow>
           pending_responses s' rid = pending_responses s rid)"
  proof
    assume a: "ledger_inv s \<and> response_id s \<noteq> - 1 \<and>
          KeyboardHook d g' key sc act ch ext wd cb s = Inr s'"
    then have i: "ledger_inv s" and n: "response_id s \<noteq> - 1"
      and h: "KeyboardHook d g' key sc act ch ext wd cb s = Inr s'" by simp_all
    from KeyboardHook_ledger [OF i n h]
    show "response_id s \<le> response_id s' \<and>
          (\<forall>ev rid. (ev, Some rid) \<in> set (sent_events (added s s')) \<longrightarrow>
             response_id s < rid \<and> rid = response_id s' \<and> rid \<noteq> 0 \<and>
             pending_responses s rid = None \<and> pending_responses s' rid = Some cb) \<and>
          (\<forall>rid. pending_responses s rid \<noteq> None \<longrightarrow>
             pending_responses s' rid = pending_responses s rid)"
      by (elim conjE) (intro conjI)
  qed
  have p4: "pending_responses t rid' = Some cb' \<longrightarrow>
        HandleResponse h rid' t =
          Inr (t\<lparr>pending_responses := (pending_responses t)(rid' := None),
                 trace := trace t @ [Called cb' h]\<rparr>)"
    by (rule impI) (rule HandleResponse_pending)
  show ?thesis by (intro conjI) (rule p1, rule p2, rule p3, rule p4)
qed

theorem response_ids_monotonic_witness:
  "run sample_statics
     [KeyInput sample_idle 0x41 0x1E WM_KEYDOWN 0x61 False False 7,
      KeyInput sample_idle 0x41 0x1E WM_KEYUP 0 False False 8,
      Acknowledge True 2] sample_engine =
     Inr (projr (run sample_statics
       [KeyInput sample_idle 0x41 0x1E WM_KEYDOWN 0x61 False False 7,
        KeyInput sample_idle 0x41 0x1E WM_KEYUP 0 False False 8,
        Acknowledge True 2] sample_engine))
   \<and> tracked_ids (trace (projr (run sample_statics
       [KeyInput sample_idle 0x41 0x1E WM_KEYDOWN 0x61 False False 7,
        KeyInput sample_idle 0x41 0x1E WM_KEYUP 0 False False 8,
        Acknowledge True 2] sample_engine))) = [2, 3]
   \<and> sorted_wrt (<) (tracked_ids (trace (projr (run sample_statics
       [KeyInput sample_idle 0x41 0x1E WM_KEYDOWN 0x61 False False 7,
        KeyInput sample_idle 0x41 0x1E WM_KEYUP 0 False False 8,
        Acknowledge True 2] sample_engine))))
   \<and> ledger_inv sample_engine \<and> response_id sample_engine \<noteq> - 1
   \<and> KeyboardHook sample_statics sample_idle 0x41 0x1E WM_KEYDOWN 0x61 False False 7 sample_engine =
       Inr (projr (KeyboardHook sample_statics sample_idle 0x41 0x1E WM_KEYDOWN 0x61 False False 7
                     sample_engine))
   \<and> sent_events (added sample_engine
         (projr (KeyboardHook sample_statics sample_idle 0x41 0x1E WM_KEYDOWN 0x61 False False 7
                   sample_engine))) =
       [(\<lparr>type = kFlutterKeyEventTypeDown, physical = 0x00070004, logical = 0x61,
          character = [0x61], synthesized = False\<rparr>, Some 2)]
   \<and> response_id sample_engine < 2
   \<and> pending_responses sample_engine 2 = None
   \<and> pending_responses
         (projr (KeyboardHook sample_statics sample_idle 0x41 0x1E WM_KEYDOWN 0x61 False False 7
                   sample_engine)) 2 = Some 7
   \<and> \<not> isl (HandleResponse True 2
         (projr (KeyboardHook sample_statics sample_idle 0x41 0x1E WM_KEYDOWN 0x61 False False 7
                   sample_engine)))
   \<and> trace (projr (HandleResponse True 2
         (projr (KeyboardHook sample_statics sample_idle 0x41 0x1E WM_KEYDOWN 0x61 False False 7
                   sample_engine)))) =
       [Sent \<lparr>type = kFlutterKeyEventTypeDown, physical = 0x00070004, logical = 0x61,
               character = [0x61], synthesized = False\<rparr> (Some 2),
        Called 7 True]"
proof -
  let ?cs = "[KeyInput sample_idle 0x41 0x1E WM_KEYDOWN 0x61 False False 7,
      KeyInput sample_idle 0x41 0x1E WM_KEYUP 0 False False 8,
      Acknowledge True 2]"
  let ?r = "run sample_statics ?cs sample_engine"
  let ?k = "KeyboardHook sample_statics sample_idle 0x41 0x1E WM_KEYDOWN 0x61 False False 7
              sample_engine"
  have "\<not> isl ?r" by code_simp
  then have r: "?r = Inr (projr ?r)" by simp
  have ids: "tracked_ids (trace (projr ?r)) = [2, 3]" by code_simp
  have "\<not> isl ?k" by code_simp
  then have k: "?k = Inr (projr ?k)" by simp
  have ev: "sent_events (trace (projr ?k)) =
      [(\<lparr>type = kFlutterKeyEventTypeDown, physical = 0x00070004, logical = 0x61,
         character = [0x61], synthesized = False\<rparr>, Some 2)]" by code_simp
  have tk: "trace (projr ?k) =
      [Sent \<lparr>type = kFlutterKeyEventTypeDown, physical = 0x00070004, logical = 0x61,
         character = [0x61], synthesized = False\<rparr> (Some 2)]" by code_simp
  have c: "sample_engine = KeyboardKeyEmbedderHandler sample_statics sample_idle False"
    by (simp add: sample_engine_def)
  have inv: "ledger_inv sample_engine" unfolding c using constructor_ledger by blast
  have len: "length ?cs < 2 ^ 64 - 1" by simp
  note t = response_ids_monotonic [of sample_statics sample_idle False ?cs "projr ?r"
      sample_engine sample_idle "0x41" "0x1E" WM_KEYDOWN "0x61" False False 7 "projr ?k"
      "projr ?k" 2 7 True, folded c]
  have ad: "added sample_engine (projr ?k) = trace (projr ?k)"
    by (simp add: added_def sample_engine_fresh)
  have c5: "response_id sample_engine \<noteq> - 1" by (simp add: sample_engine_fresh)
  have "(\<lparr>type = kFlutterKeyEventTypeDown, physical = 0x00070004, logical = 0x61,
         character = [0x61], synthesized = False\<rparr>, Some 2)
        \<in> set (sent_events (added sample_engine (projr ?k)))"
    by (simp only: ad ev) simp
  with t inv c5 k have pk: "pending_responses (projr ?k) 2 = Some 7" by blast
  have h: "HandleResponse True 2 (projr ?k) =
      Inr ((projr ?k)\<lparr>pending_responses := (pending_responses (projr ?k))(2 := None),
             trace := trace (projr ?k) @ [Called 7 True]\<rparr>)"
    using t pk by blast
  have c3: "sorted_wrt (<) (tracked_ids (trace (projr ?r)))"
    using t r len by blast
  have c7: "sent_events (added sample_engine (projr ?k)) =
      [(\<lparr>type = kFlutterKeyEventTypeDown, physical = 0x00070004, logical = 0x61,
         character = [0x61], synthesized = False\<rparr>, Some 2)]" by (simp only: ad ev)
  have c8: "response_id sample_engine < 2" by (simp add: sample_engine_fresh)
  have c9: "pending_responses sample_engine 2 = None" by (simp add: sample_engine_fresh)
  have c11: "\<not> isl (HandleResponse True 2 (projr ?k))" by (simp only: h) simp
  have c12: "trace (projr (HandleResponse True 2 (projr ?k))) =
       [Sent \<lparr>type = kFlutterKeyEventTypeDown, physical = 0x00070004, logical = 0x61,
               character = [0x61], synthesized = False\<rparr> (Some 2),
        Called 7 True]" by (simp only: h) (simp add: tk)
  show ?thesis
    by (intro conjI) (rule r, rule ids, rule c3, rule inv, rule c5, rule k, rule c7, rule c8,
        rule c9, rule pk, rule c11, rule c12)
qed

section \<open>Character payload\<close>

text \<open>
  Claim C6, as stated, fails in one part: \<open>ConvertChar32ToUtf8\<close> does not return the
  standard UTF-8 encoding for every code point up to \<open>0x10FFFF\<close>. The surrogate
  \<open>0xD800\<close> passes the assertion of the function, which returns the three bytes
  \<open>0xED 0xA0 0x80\<close> for it, while the standard has no encoding for a surrogate.
\<close>

theorem surrogate_encoding_counterexample:
  "(0xD800 :: 32 word) \<le> 0x10FFFF \<and>
   ConvertChar32ToUtf8 0xD800 = Inr [0xED, 0xA0, 0x80] \<and>
   utf8_standard (unat (0xD800 :: 32 word)) = None"
proof (intro conjI)
  show "(0xD800 :: 32 word) \<le> 0x10FFFF" by simp
  show "ConvertChar32ToUtf8 0xD800 = Inr [0xED, 0xA0, 0x80]" by code_simp
  show "utf8_standard (unat (0xD800 :: 32 word)) = None" by (simp add: utf8_standard_def)
qed

text \<open>
  Claim C6, amended. A primary event is the one event of a call that is dispatched with
  response tracking. When it is an Up event its character is empty. When it is a Down or
  Repeat event its character is the C string of what \<open>ConvertChar32ToUtf8\<close> returns for
  the code point (after \<open>UndeadChar\<close>); for a non-zero code point that is the whole
  encoding, and for the code point 0 both are the empty C string. With its terminator
  the payload fits the eight bytes of the cache. For every code point up to \<open>0x10FFFF\<close>
  that is not a surrogate, \<open>ConvertChar32ToUtf8\<close> returns the standard UTF-8 encoding; in
  particular \<open>0x41\<close> gives the byte \<open>0x41\<close> and \<open>0x1F600\<close> gives \<open>0xF0 0x9F 0x98 0x80\<close>.
  For a surrogate it returns three bytes by the bit distribution of the three-byte row,
  the first of them \<open>0xED\<close>, where the standard has no encoding.
\<close>

theorem character_payload:
  "(KeyboardHookImpl d g key sc act ch ext wd cb s = Inr s' \<and>
    (ev, Some rid) \<in> set (sent_events (added s s')) \<longrightarrow>
      \<not> synthesized ev \<and>
      (type ev = kFlutterKeyEventTypeUp \<longrightarrow> character ev = []) \<and>
      (type ev \<noteq> kFlutterKeyEventTypeUp \<longrightarrow>
         (\<exists>bs. ConvertChar32ToUtf8 (UndeadChar d ch) = Inr bs \<and> character ev = c_str bs \<and>
               (UndeadChar d ch \<noteq> 0 \<longrightarrow> character ev = bs))) \<and>
      length (character ev) + 1 \<le> kCharacterCacheSize)
   \<and> (cp \<le> 0x10FFFF \<and> (cp < 0xD800 \<or> 0xDFFF < cp) \<longrightarrow>
        (\<exists>bs. ConvertChar32ToUtf8 cp = Inr bs \<and> utf8_standard (unat cp) = Some (map unat bs)))
   \<and> (0xD800 \<le> su \<and> su \<le> 0xDFFF \<longrightarrow>
        (\<exists>bs. ConvertChar32ToUtf8 su = Inr bs \<and>
              map unat bs = [0xED, 0x80 + (unat su div 64) mod 64, 0x80 + unat su mod 64] \<and>
              utf8_standard (unat su) = None))
   \<and> ConvertChar32ToUtf8 0x41 = Inr [0x41]
   \<and> ConvertChar32ToUtf8 0x1F600 = Inr [0xF0, 0x9F, 0x98, 0x80]"
proof -
  have p1: "KeyboardHookImpl d g key sc act ch ext wd cb s = Inr s' \<and>
    (ev, Some rid) \<in> set (sent_events (added s s')) \<longrightarrow>
      \<not> synthesized ev \<and>
      (type ev = kFlutterKeyEventTypeUp \<longrightarrow> character ev = []) \<and>
      (type ev \<noteq> kFlutterKeyEventTypeUp \<longrightarrow>
         (\<exists>bs. ConvertChar32ToUtf8 (UndeadChar d ch) = Inr bs \<and> character ev = c_str bs \<and>
               (UndeadChar d ch \<noteq> 0 \<longrightarrow> character ev = bs))) \<and>
      length (character ev) + 1 \<le> kCharacterCacheSize"
  proof
    assume a: "KeyboardHookImpl d g key sc act ch ext wd cb s = Inr s' \<and>
      (ev, Some rid) \<in> set (sent_events (added s s'))"
    then have i: "KeyboardHookImpl d g key sc act ch ext wd cb s = Inr s'"
      and m: "(ev, Some rid) \<in> set (sent_events (added s s'))" by simp_all
    from KeyboardHookImpl_primary [OF i m] obtain ty rlk elr where
      c: "classify (act = WM_KEYDOWN \<or> act = WM_SYSKEYDOWN)
             (pressingRecords s (GetPhysicalKey d sc ext) \<noteq> None) wd
             (case pressingRecords s (GetPhysicalKey d sc ext) of None \<Rightarrow> 0 | Some v \<Rightarrow> v)
             (GetLogicalKey d key ext sc) (UndeadChar d ch) =
               Inr (Some (ty, rlk, elr, character ev))"
      and e: "ev = \<lparr>type = ty, physical = GetPhysicalKey d sc ext, logical = rlk,
                 character = character ev, synthesized = False\<rparr>"
      by blast
    have ty: "type ev = ty" and sy: "\<not> synthesized ev" by (subst e, simp)+
    from classify_Some [OF c]
    have k: "ty = kFlutterKeyEventTypeUp \<and> character ev = [] \<or>
             ty \<noteq> kFlutterKeyEventTypeUp \<and>
               ConvertUtf32ToUtf8 (UndeadChar d ch) = Inr (character ev)"
      by auto
    show "\<not> synthesized ev \<and>
      (type ev = kFlutterKeyEventTypeUp \<longrightarrow> character ev = []) \<and>
      (type ev \<noteq> kFlutterKeyEventTypeUp \<longrightarrow>
         (\<exists>bs. ConvertChar32ToUtf8 (UndeadChar d ch) = Inr bs \<and> character ev = c_str bs \<and>
               (UndeadChar d ch \<noteq> 0 \<longrightarrow> character ev = bs))) \<and>
      length (character ev) + 1 \<le> kCharacterCacheSize"
      using k
    proof
      assume "ty = kFlutterKeyEventTypeUp \<and> character ev = []"
      then show ?thesis using ty sy by (simp add: kCharacterCacheSize_def)
    next
      assume u: "ty \<noteq> kFlutterKeyEventTypeUp \<and>
               ConvertUtf32ToUtf8 (UndeadChar d ch) = Inr (character ev)"
      then have "\<exists>bs. ConvertChar32ToUtf8 (UndeadChar d ch) = Inr bs \<and>
           character ev = c_str bs \<and> (UndeadChar d ch \<noteq> 0 \<longrightarrow> character ev = bs) \<and>
           length (character ev) \<le> 4"
        by (intro ConvertUtf32ToUtf8_Inr) simp
      then show ?thesis using u ty sy by (auto simp: kCharacterCacheSize_def)
    qed
  qed
  have p2: "cp \<le> 0x10FFFF \<and> (cp < 0xD800 \<or> 0xDFFF < cp) \<longrightarrow>
        (\<exists>bs. ConvertChar32ToUtf8 cp = Inr bs \<and> utf8_standard (unat cp) = Some (map unat bs))"
  proof
    assume "cp \<le> 0x10FFFF \<and> (cp < 0xD800 \<or> 0xDFFF < cp)"
    then have r: "cp \<le> 0x10FFFF" and n: "cp < 0xD800 \<or> 0xDFFF < cp" by simp_all
    show "\<exists>bs. ConvertChar32ToUtf8 cp = Inr bs \<and> utf8_standard (unat cp) = Some (map unat bs)"
      using r n by (rule ConvertChar32ToUtf8_standard)
  qed
  have p3: "0xD800 \<le> su \<and> su \<le> 0xDFFF \<longrightarrow>
        (\<exists>bs. ConvertChar32ToUtf8 su = Inr bs \<and>
              map unat bs = [0xED, 0x80 + (unat su div 64) mod 64, 0x80 + unat su mod 64] \<and>
              utf8_standard (unat su) = None)"
  proof
    assume "0xD800 \<le> su \<and> su \<le> 0xDFFF"
    then have lo: "0xD800 \<le> su" and hi: "su \<le> 0xDFFF" by simp_all
    show "\<exists>bs. ConvertChar32ToUtf8 su = Inr bs \<and>
              map unat bs = [0xED, 0x80 + (unat su div 64) mod 64, 0x80 + unat su mod 64] \<and>
              utf8_standard (unat su) = None"
      using lo hi by (rule ConvertChar32ToUtf8_surrogate)
  qed
  have p4: "ConvertChar32ToUtf8 0x41 = Inr [0x41]" by code_simp
  have p5: "ConvertChar32ToUtf8 0x1F600 = Inr [0xF0, 0x9F, 0x98, 0x80]" by code_simp
  show ?thesis by (intro conjI) (rule p1, rule p2, rule p3, rule p4, rule p5)
qed

theorem character_payload_witness:
  "KeyboardHookImpl sample_statics sample_idle 0x41 0x1E WM_KEYDOWN 0x1F600 False False 7 sample_engine =
     Inr (projr (KeyboardHookImpl sample_statics sample_idle 0x41 0x1E WM_KEYDOWN 0x1F600 False
                   False 7 sample_engine))
   \<and> (\<lparr>type = kFlutterKeyEventTypeDown, physical = 0x00070004, logical = 0x61,
        character = [0xF0, 0x9F, 0x98, 0x80], synthesized = False\<rparr>, Some 2)
       \<in> set (sent_events (added sample_engine
            (projr (KeyboardHookImpl sample_statics sample_idle 0x41 0x1E WM_KEYDOWN 0x1F600 False
                      False 7 sample_engine))))
   \<and> (\<exists>bs. ConvertChar32ToUtf8 (UndeadChar sample_statics 0x1F600) = Inr bs \<and>
             [0xF0, 0x9F, 0x98, 0x80] = c_str bs)
   \<and> (0x1F600 :: 32 word) \<le> 0x10FFFF
   \<and> (0xDFFF :: 32 word) < 0x1F600
   \<and> (\<exists>bs. ConvertChar32ToUtf8 0x1F600 = Inr bs \<and>
             utf8_standard (unat (0x1F600 :: 32 word)) = Some (map unat bs))
   \<and> (0xD800 :: 32 word) \<le> 0xDC00
   \<and> (0xDC00 :: 32 word) \<le> 0xDFFF
   \<and> (\<exists>bs. ConvertChar32ToUtf8 0xDC00 = Inr bs \<and> map unat bs = [0xED, 0xB0, 0x80] \<and>
             utf8_standard (unat (0xDC00 :: 32 word)) = None)"
proof -
  let ?k = "KeyboardHookImpl sample_statics sample_idle 0x41 0x1E WM_KEYDOWN 0x1F600 False False 7
              sample_engine"
  let ?e = "\<lparr>type = kFlutterKeyEventTypeDown, physical = 0x00070004, logical = 0x61,
        character = [0xF0, 0x9F, 0x98, 0x80], synthesized = False\<rparr>"
  have "\<not> isl ?k" by code_simp
  then have k: "?k = Inr (projr ?k)" by simp
  have ev: "sent_events (trace (projr ?k)) = [(?e, Some 2)]" by code_simp
  have ad: "added sample_engine (projr ?k) = trace (projr ?k)"
    by (simp add: added_def sample_engine_fresh)
  have m: "(?e, Some 2) \<in> set (sent_events (added sample_engine (projr ?k)))"
    by (simp only: ad ev) simp
  have le: "(0x1F600 :: 32 word) \<le> 0x10FFFF" by simp
  have ns: "(0xDFFF :: 32 word) < 0x1F600" by simp
  have lo: "(0xD800 :: 32 word) \<le> 0xDC00" by simp
  have hi: "(0xDC00 :: 32 word) \<le> 0xDFFF" by simp
  note t = character_payload [where d = sample_statics and g = sample_idle and key = "0x41"
      and sc = "0x1E" and act = WM_KEYDOWN and ch = "0x1F600" and ext = False and wd = False
      and cb = 7 and s = sample_engine and s' = "projr ?k" and ev = ?e and rid = 2
      and cp = "0x1F600" and su = "0xDC00"]
  have c3: "\<exists>bs. ConvertChar32ToUtf8 (UndeadChar sample_statics 0x1F600) = Inr bs \<and>
             [0xF0, 0x9F, 0x98, 0x80] = c_str bs"
    using t k m by auto
  have c6: "\<exists>bs. ConvertChar32ToUtf8 0x1F600 = Inr bs \<and>
             utf8_standard (unat (0x1F600 :: 32 word)) = Some (map unat bs)"
    using t le ns by blast
  have "\<exists>bs. ConvertChar32ToUtf8 0xDC00 = Inr bs \<and>
          map unat bs = [0xED, 0x80 + (unat (0xDC00 :: 32 word) div 64) mod 64,
                         0x80 + unat (0xDC00 :: 32 word) mod 64] \<and>
          utf8_standard (unat (0xDC00 :: 32 word)) = None"
    using t lo hi by blast
  then have c9: "\<exists>bs. ConvertChar32ToUtf8 0xDC00 = Inr bs \<and> map unat bs = [0xED, 0xB0, 0x80] \<and>
             utf8_standard (unat (0xDC00 :: 32 word)) = None"
    by simp
  show ?thesis
    by (intro conjI) (rule k, rule m, rule c3, rule le, rule ns, rule c6, rule lo, rule hi, rule c9)
qed

section \<open>Initialisation of the critical-key registry\<close>

text \<open>
  Claim C8, as stated, fails: the identifiers of a critical key are not left at the
  unseen value until the key is first observed. The constructor computes them at once,
  from the scan code \<open>MapVirtualKey\<close> gives for the virtual key. In the sample instance
  the caps-lock record holds the physical key \<open>0x00070039\<close> before any input.
\<close>

theorem lazy_identifiers_counterexample:
  "trace sample_engine = [] \<and>
   map_of (critical_keys sample_engine) VK_CAPITAL =
     Some \<lparr>physical_key = 0x00070039, logical_key = 0x0100000104, check_pressed = True,
           check_toggled = True, toggled_on = False\<rparr> \<and>
   (0x00070039 :: 64 word) \<noteq> 0"
  by (simp add: sample_engine_def KeyboardKeyEmbedderHandler_def InitCriticalKeys_list vk_defs
      createCheckedKey_def GetPhysicalKey_def GetLogicalKey_def sample_statics_def
      normalizeScancode_def sample_idle_def kStateMaskToggled_def)

text \<open>
  Claim C8, amended. The registry built by the constructor holds the seven keys in key
  order, each with the identifiers the resolvers give for the scan code of
  \<open>MapVirtualKey\<close>, and with the toggled flag read from bit 0 of the key state for the
  three toggle keys (false for the others). \<open>UpdateLastSeenCritialKey\<close> overwrites both
  identifiers of the record of its virtual key and touches no other record. A call of
  \<open>KeyboardHookImpl\<close> that dispatches a primary event leaves the record of its virtual
  key (if it is a critical key) with the identifiers of that event, and every other
  record with the identifiers and check flags it had.
\<close>

theorem critical_keys_initialised:
  "critical_keys (KeyboardKeyEmbedderHandler d g b) =
     [(VK_CAPITAL, createCheckedKey d g VK_CAPITAL False True True),
      (VK_NUMLOCK, createCheckedKey d g VK_NUMLOCK True True True),
      (VK_SCROLL, createCheckedKey d g VK_SCROLL False True True),
      (VK_LSHIFT, createCheckedKey d g VK_LSHIFT False True False),
      (VK_RSHIFT, createCheckedKey d g VK_RSHIFT False True False),
      (VK_LCONTROL, createCheckedKey d g VK_LCONTROL False True False),
      (VK_RCONTROL, createCheckedKey d g VK_RCONTROL True True False)]
   \<and> physical_key (createCheckedKey d g vk e cp ct) = GetPhysicalKey d (MapVirtualKey d vk) e
   \<and> logical_key (createCheckedKey d g vk e cp ct) = GetLogicalKey d vk e (MapVirtualKey d vk)
   \<and> toggled_on (createCheckedKey d g vk e cp ct) = (ct \<and> g vk AND kStateMaskToggled \<noteq> 0)
   \<and> map_of (critical_keys (UpdateLastSeenCritialKey vk p l s0)) vk' =
       (if vk' = vk
        then map_option (\<lambda>ck. ck\<lparr>physical_key := p, logical_key := l\<rparr>) (map_of (critical_keys s0) vk)
        else map_of (critical_keys s0) vk')
   \<and> (KeyboardHookImpl d g' key sc act ch ext wd cb s = Inr s' \<and>
        (ev, Some rid) \<in> set (sent_events (added s s')) \<longrightarrow>
        rel_option same_key
          (if vk' = key
           then map_option (\<lambda>ck. ck\<lparr>physical_key := physical ev, logical_key := logical ev\<rparr>)
                  (map_of (critical_keys s) key)
           else map_of (critical_keys s) vk')
          (map_of (critical_keys s') vk'))"
proof -
  have p1: "critical_keys (KeyboardKeyEmbedderHandler d g b) =
     [(VK_CAPITAL, createCheckedKey d g VK_CAPITAL False True True),
      (VK_NUMLOCK, createCheckedKey d g VK_NUMLOCK True True True),
      (VK_SCROLL, createCheckedKey d g VK_SCROLL False True True),
      (VK_LSHIFT, createCheckedKey d g VK_LSHIFT False True False),
      (VK_RSHIFT, createCheckedKey d g VK_RSHIFT False True False),
      (VK_LCONTROL, createCheckedKey d g VK_LCONTROL False True False),
      (VK_RCONTROL, createCheckedKey d g VK_RCONTROL True True False)]"
    by (simp add: KeyboardKeyEmbedderHandler_def InitCriticalKeys_list)
  have p2: "physical_key (createCheckedKey d g vk e cp ct) = GetPhysicalKey d (MapVirtualKey d vk) e"
    and p3: "logical_key (createCheckedKey d g vk e cp ct) = GetLogicalKey d vk e (MapVirtualKey d vk)"
    and p4: "toggled_on (createCheckedKey d g vk e cp ct) = (ct \<and> g vk AND kStateMaskToggled \<noteq> 0)"
    by (simp_all add: createCheckedKey_def Let_def)
  have p5: "map_of (critical_keys (UpdateLastSeenCritialKey vk p l s0)) vk' =
       (if vk' = vk
        then map_option (\<lambda>ck. ck\<lparr>physical_key := p, logical_key := l\<rparr>) (map_of (critical_keys s0) vk)
        else map_of (critical_keys s0) vk')"
    by (simp add: UpdateLastSeenCritialKey_def map_of_update_found)
  have p6: "KeyboardHookImpl d g' key sc act ch ext wd cb s = Inr s' \<and>
        (ev, Some rid) \<in> set (sent_events (added s s')) \<longrightarrow>
        rel_option same_key
          (if vk' = key
           then map_option (\<lambda>ck. ck\<lparr>physical_key := physical ev, logical_key := logical ev\<rparr>)
                  (map_of (critical_keys s) key)
           else map_of (critical_keys s) vk')
          (map_of (critical_keys s') vk')"
  proof
    assume a: "KeyboardHookImpl d g' key sc act ch ext wd cb s = Inr s' \<and>
        (ev, Some rid) \<in> set (sent_events (added s s'))"
    then have i: "KeyboardHookImpl d g' key sc act ch ext wd cb s = Inr s'"
      and m: "(ev, Some rid) \<in> set (sent_events (added s s'))" by simp_all
    from KeyboardHookImpl_primary [OF i m] obtain ty rlk where
      e: "ev = \<lparr>type = ty, physical = GetPhysicalKey d sc ext, logical = rlk,
                 character = character ev, synthesized = False\<rparr>"
      by blast
    have pe: "physical ev = GetPhysicalKey d sc ext" and le: "logical ev = rlk"
      by (subst e, simp)+
    have na: "s' \<noteq> invoke_callback cb True s"
    proof
      assume "s' = invoke_callback cb True s"
      then have "sent_events (added s s') = []" by (simp add: invoke_callback_def added_def)
      with m show False by simp
    qed
    from KeyboardHookImpl_shape [OF i] na obtain ty' rlk' elr bytes pre where
      tr: "trace s' = trace s @ pre @
         [Sent \<lparr>type = ty', physical = GetPhysicalKey d sc ext, logical = rlk',
                character = bytes, synthesized = False\<rparr> (Some (response_id s + 1))]"
      and pre: "\<forall>e \<in> set pre. \<exists>ev. e = Sent ev None \<and> synthesized ev \<and> character ev = []"
      and ks: "list_all2 (\<lambda>kv kv'. fst kv' = fst kv \<and> same_key (snd kv) (snd kv'))
         (update_found key (\<lambda>ck. ck\<lparr>physical_key := GetPhysicalKey d sc ext, logical_key := rlk'\<rparr>)
            (critical_keys s))
         (critical_keys s')"
      by blast
    from added_append [OF tr] m sent_events_synth_None [OF pre]
    have "ev = \<lparr>type = ty', physical = GetPhysicalKey d sc ext, logical = rlk',
                character = bytes, synthesized = False\<rparr>"
      by (auto simp: sent_events_append)
    then have "rlk' = logical ev" by simp
    with map_of_same_key [OF ks, of vk'] pe
    show "rel_option same_key
          (if vk' = key
           then map_option (\<lambda>ck. ck\<lparr>physical_key := physical ev, logical_key := logical ev\<rparr>)
                  (map_of (critical_keys s) key)
           else map_of (critical_keys s) vk')
          (map_of (critical_keys s') vk')"
      by (auto simp: map_of_update_found split: if_splits)
  qed
  show ?thesis by (intro conjI) (rule p1, rule p2, rule p3, rule p4, rule p5, rule p6)
qed

theorem critical_keys_initialised_witness:
  "KeyboardHookImpl sample_statics (sample_pressed VK_LSHIFT) VK_LSHIFT 0x2A WM_KEYDOWN 0 False False 7 sample_engine =
     Inr (projr (KeyboardHookImpl sample_statics (sample_pressed VK_LSHIFT) VK_LSHIFT 0x2A WM_KEYDOWN 0 False False
                   7 sample_engine))
   \<and> (\<lparr>type = kFlutterKeyEventTypeDown, physical = 0x000700E1, logical = 0x010000010D,
        character = [], synthesized = False\<rparr>, Some 2)
       \<in> set (sent_events (added sample_engine
            (projr (KeyboardHookImpl sample_statics (sample_pressed VK_LSHIFT) VK_LSHIFT 0x2A WM_KEYDOWN 0 False
                      False 7 sample_engine))))
   \<and> rel_option same_key
        (map_option (\<lambda>ck. ck\<lparr>physical_key := 0x000700E1, logical_key := 0x010000010D\<rparr>)
           (map_of (critical_keys sample_engine) VK_LSHIFT))
        (map_of (critical_keys
            (projr (KeyboardHookImpl sample_statics (sample_pressed VK_LSHIFT) VK_LSHIFT 0x2A WM_KEYDOWN 0 False
                      False 7 sample_engine))) VK_LSHIFT)"
proof -
  let ?k = "KeyboardHookImpl sample_statics (sample_pressed VK_LSHIFT) VK_LSHIFT 0x2A WM_KEYDOWN 0 False False 7
              sample_engine"
  let ?e = "\<lparr>type = kFlutterKeyEventTypeDown, physical = 0x000700E1, logical = 0x010000010D,
        character = [], synthesized = False\<rparr>"
  have "\<not> isl ?k" by code_simp
  then have k: "?k = Inr (projr ?k)" by simp
  have ev: "sent_events (trace (projr ?k)) = [(?e, Some 2)]" by code_simp
  have ad: "added sample_engine (projr ?k) = trace (projr ?k)"
    by (simp add: added_def sample_engine_fresh)
  have m: "(?e, Some 2) \<in> set (sent_events (added sample_engine (projr ?k)))"
    by (simp only: ad ev) simp
  note t = critical_keys_initialised [where d = sample_statics and g' = "sample_pressed VK_LSHIFT"
      and key = VK_LSHIFT and sc = "0x2A" and act = WM_KEYDOWN and ch = 0 and ext = False
      and wd = False and cb = 7 and s = sample_engine and s' = "projr ?k" and ev = ?e
      and rid = 2 and vk' = VK_LSHIFT]
  have c3: "rel_option same_key
        (map_option (\<lambda>ck. ck\<lparr>physical_key := 0x000700E1, logical_key := 0x010000010D\<rparr>)
           (map_of (critical_keys sample_engine) VK_LSHIFT))
        (map_of (critical_keys (projr ?k)) VK_LSHIFT)"
    using t k m by simp
  show ?thesis by (intro conjI) (rule k, rule m, rule c3)
qed

section \<open>The record of a released critical key\<close>

text \<open>
  Claim C10 fails on the code. Left shift goes down while the operating system reports
  it pressed: the primary Down event is sent and the key is recorded. Then the up
  transition arrives while \<open>GetKeyState\<close> still reports the key pressed. The
  pressed-state pass takes the negated bit as the expected state, finds the key recorded
  though expected released, erases the record and sends a synthesized Up event. The
  final removal in \<open>KeyboardHookImpl\<close> then finds no entry, and its assertion fails.
\<close>

theorem release_assertion_fails:
  "pressingRecords
     (projr (KeyboardHook sample_statics (sample_pressed VK_LSHIFT) VK_LSHIFT 0x2A WM_KEYDOWN 0
               False False 7 sample_engine)) 0x000700E1 = Some 0x010000010D
   \<and> pressingRecords
       (projr (SynchronizeCritialPressedStates (sample_pressed VK_LSHIFT) VK_LSHIFT True
         (projr (SynchronizeCritialToggledStates (sample_pressed VK_LSHIFT) VK_LSHIFT False
           (UpdateLastSeenCritialKey VK_LSHIFT 0x000700E1 0x010000010D
             (projr (KeyboardHook sample_statics (sample_pressed VK_LSHIFT) VK_LSHIFT 0x2A
                       WM_KEYDOWN 0 False False 7 sample_engine))))))) 0x000700E1 = None
   \<and> trace
       (projr (SynchronizeCritialPressedStates (sample_pressed VK_LSHIFT) VK_LSHIFT True
         (projr (SynchronizeCritialToggledStates (sample_pressed VK_LSHIFT) VK_LSHIFT False
           (UpdateLastSeenCritialKey VK_LSHIFT 0x000700E1 0x010000010D
             (projr (KeyboardHook sample_statics (sample_pressed VK_LSHIFT) VK_LSHIFT 0x2A
                       WM_KEYDOWN 0 False False 7 sample_engine))))))) =
       [Sent \<lparr>type = kFlutterKeyEventTypeDown, physical = 0x000700E1, logical = 0x010000010D,
               character = [], synthesized = False\<rparr> (Some 2),
        Sent \<lparr>type = kFlutterKeyEventTypeUp, physical = 0x000700E1, logical = 0x010000010D,
               character = [], synthesized = True\<rparr> None]
   \<and> KeyboardHookImpl sample_statics (sample_pressed VK_LSHIFT) VK_LSHIFT 0x2A WM_KEYUP 0 False
       False 8
       (projr (KeyboardHook sample_statics (sample_pressed VK_LSHIFT) VK_LSHIFT 0x2A WM_KEYDOWN 0
                 False False 7 sample_engine)) = Inl AssertionFailed
   \<and> run sample_statics
       [KeyInput (sample_pressed VK_LSHIFT) VK_LSHIFT 0x2A WM_KEYDOWN 0 False False 7,
        KeyInput (sample_pressed VK_LSHIFT) VK_LSHIFT 0x2A WM_KEYUP 0 False False 8]
       sample_engine = Inl AssertionFailed"
  by code_simp

section \<open>A down transition without a record\<close>

text \<open>
  Claim C9, as stated, fails for one kind of input: a down transition on a physical key
  without a record whose freshly resolved logical key is the IME sentinel is ignored,
  and no Down event is emitted for it. Here the virtual key is \<open>VK_PROCESSKEY\<close>, the
  physical key of scan code \<open>0x1E\<close> has no record, and the call only invokes the
  callback.
\<close>

theorem fresh_down_counterexample:
  "pressingRecords sample_engine (GetPhysicalKey sample_statics 0x1E False) = None
   \<and> \<not> isl (KeyboardHookImpl sample_statics sample_idle VK_PROCESSKEY 0x1E WM_KEYDOWN 0x61 False
               False 7 sample_engine)
   \<and> trace (projr (KeyboardHookImpl sample_statics sample_idle VK_PROCESSKEY 0x1E WM_KEYDOWN 0x61
                     False False 7 sample_engine)) = [Called 7 True]"
  by code_simp

text \<open>
  Claim C9, amended. For a down transition whose physical key has no record and whose
  freshly resolved logical key is neither the IME sentinel nor zero, the call succeeds
  (given a character that passes the assertion of \<open>ConvertChar32ToUtf8\<close> and a registry
  that passes the assertion of the synchronization loops) and its last effect is the
  primary event: type Down, the physical key, the freshly resolved logical key, the
  converted character. Before it come only synthesized events. The record of the
  physical key is that logical key afterwards. The repeat flag \<open>wd\<close> of the platform
  plays no part: it is arbitrary here.
\<close>

theorem fresh_down_emits_down:
  assumes "act = WM_KEYDOWN \<or> act = WM_SYSKEYDOWN"
    and "pressingRecords s (GetPhysicalKey d sc ext) = None"
    and "GetLogicalKey d key ext sc \<noteq> ucast VK_PROCESSKEY"
    and "GetLogicalKey d key ext sc \<noteq> 0"
    and "UndeadChar d ch \<le> 0x10FFFF"
    and "keys_ok (critical_keys s)"
  shows "\<exists>s' pre bytes.
      KeyboardHookImpl d g key sc act ch ext wd cb s = Inr s' \<and>
      trace s' = trace s @ pre @
        [Sent \<lparr>type = kFlutterKeyEventTypeDown, physical = GetPhysicalKey d sc ext,
               logical = GetLogicalKey d key ext sc, character = bytes, synthesized = False\<rparr>
           (Some (response_id s + 1))] \<and>
      (\<forall>e \<in> set pre. \<exists>ev. e = Sent ev None \<and> synthesized ev \<and> character ev = []) \<and>
      ConvertUtf32ToUtf8 (UndeadChar d ch) = Inr bytes \<and>
      pressingRecords s' (GetPhysicalKey d sc ext) = Some (GetLogicalKey d key ext sc)"
  using assms by (rule KeyboardHookImpl_fresh_down)

theorem fresh_down_emits_down_witness:
  "pressingRecords sample_engine (GetPhysicalKey sample_statics 0x1E False) = None
   \<and> GetLogicalKey sample_statics 0x41 False 0x1E \<noteq> ucast VK_PROCESSKEY
   \<and> GetLogicalKey sample_statics 0x41 False 0x1E \<noteq> 0
   \<and> UndeadChar sample_statics 0x61 \<le> 0x10FFFF
   \<and> keys_ok (critical_keys sample_engine)
   \<and> (\<exists>s' pre bytes.
        KeyboardHookImpl sample_statics sample_idle 0x41 0x1E WM_KEYDOWN 0x61 False True 7
          sample_engine = Inr s' \<and>
        trace s' = trace sample_engine @ pre @
          [Sent \<lparr>type = kFlutterKeyEventTypeDown, physical = GetPhysicalKey sample_statics 0x1E False,
                 logical = GetLogicalKey sample_statics 0x41 False 0x1E, character = bytes,
                 synthesized = False\<rparr>
             (Some (response_id sample_engine + 1))] \<and>
        pressingRecords s' (GetPhysicalKey sample_statics 0x1E False) =
          Some (GetLogicalKey sample_statics 0x41 False 0x1E))"
proof -
  have h2: "pressingRecords sample_engine (GetPhysicalKey sample_statics 0x1E False) = None"
    by (simp add: sample_engine_fresh)
  have l: "GetLogicalKey sample_statics 0x41 False 0x1E = 0x61" by code_simp
  have h3: "GetLogicalKey sample_statics 0x41 False 0x1E \<noteq> ucast VK_PROCESSKEY"
    by (simp add: l VK_PROCESSKEY_def)
  have h4: "GetLogicalKey sample_statics 0x41 False 0x1E \<noteq> 0" by (simp add: l)
  have h5: "UndeadChar sample_statics 0x61 \<le> 0x10FFFF" by (simp add: sample_statics_def)
  have h6: "keys_ok (critical_keys sample_engine)" by code_simp
  have h1: "WM_KEYDOWN = WM_KEYDOWN \<or> WM_KEYDOWN = WM_SYSKEYDOWN" by simp
  from fresh_down_emits_down [OF h1 h2 h3 h4 h5 h6, of sample_idle True 7]
  have c: "\<exists>s' pre bytes.
        KeyboardHookImpl sample_statics sample_idle 0x41 0x1E WM_KEYDOWN 0x61 False True 7
          sample_engine = Inr s' \<and>
        trace s' = trace sample_engine @ pre @
          [Sent \<lparr>type = kFlutterKeyEventTypeDown, physical = GetPhysicalKey sample_statics 0x1E False,
                 logical = GetLogicalKey sample_statics 0x41 False 0x1E, character = bytes,
                 synthesized = False\<rparr>
             (Some (response_id sample_engine + 1))] \<and>
        pressingRecords s' (GetPhysicalKey sample_statics 0x1E False) =
          Some (GetLogicalKey sample_statics 0x41 False 0x1E)"
    by blast
  show ?thesis by (intro conjI) (rule h2, rule h3, rule h4, rule h5, rule h6, rule c)
qed

section \<open>The press-state table\<close>

text \<open>
  Claim C1. \<open>pressingRecords_\<close> is a map, so a physical key has at most one entry. For
  a call of \<open>KeyboardHookImpl\<close> that returns, from a table that holds no zero logical
  key (the constructor's empty table does, and the call preserves it) and with a
  non-zero resolved logical key:
  \<^item> the table afterwards is the one obtained from the table before by replaying the
    events the call sent to the host, synthesized ones included: an entry is present
    exactly for the physical keys whose last event was a Down or Repeat, with that
    event's logical key;
  \<^item> a primary Down event comes from a physical key without an entry, carries the
    freshly resolved logical key and creates the entry with it;
  \<^item> a primary Repeat event carries the logical key of the existing entry, and the
    entry is the same afterwards, whatever the resolver gives now;
  \<^item> a primary Up event carries the logical key of the existing entry and removes it.
\<close>

theorem press_state_table:
  assumes "KeyboardHookImpl d g key sc act ch ext wd cb s = Inr s'"
    and "0 \<notin> ran (pressingRecords s)"
    and "GetLogicalKey d key ext sc \<noteq> 0"
  shows "pressingRecords s' = foldl apply_event (pressingRecords s) (sent_events (added s s'))
     \<and> 0 \<notin> ran (pressingRecords s')
     \<and> (\<forall>ev rid. (ev, Some rid) \<in> set (sent_events (added s s')) \<longrightarrow>
          physical ev = GetPhysicalKey d sc ext \<and>
          (type ev = kFlutterKeyEventTypeDown \<longrightarrow>
             pressingRecords s (GetPhysicalKey d sc ext) = None \<and>
             logical ev = GetLogicalKey d key ext sc \<and>
             pressingRecords s' (GetPhysicalKey d sc ext) = Some (logical ev)) \<and>
          (type ev = kFlutterKeyEventTypeRepeat \<longrightarrow>
             pressingRecords s (GetPhysicalKey d sc ext) = Some (logical ev) \<and>
             pressingRecords s' (GetPhysicalKey d sc ext) = Some (logical ev)) \<and>
          (type ev = kFlutterKeyEventTypeUp \<longrightarrow>
             pressingRecords s (GetPhysicalKey d sc ext) = Some (logical ev) \<and>
             pressingRecords s' (GetPhysicalKey d sc ext) = None))"
proof (intro conjI allI impI)
  show "pressingRecords s' = foldl apply_event (pressingRecords s) (sent_events (added s s'))"
    using assms by (rule KeyboardHookImpl_replay)
next
  show "0 \<notin> ran (pressingRecords s')"
    using assms by (rule KeyboardHookImpl_records)
next
  fix ev rid assume m: "(ev, Some rid) \<in> set (sent_events (added s s'))"
  note r = KeyboardHookImpl_primary_record [OF assms m]
  {
    show "physical ev = GetPhysicalKey d sc ext" using r by simp
  next
    assume "type ev = kFlutterKeyEventTypeDown"
    with r show "pressingRecords s (GetPhysicalKey d sc ext) = None"
      "logical ev = GetLogicalKey d key ext sc"
      "pressingRecords s' (GetPhysicalKey d sc ext) = Some (logical ev)" by simp_all
  next
    assume "type ev = kFlutterKeyEventTypeRepeat"
    with r show "pressingRecords s (GetPhysicalKey d sc ext) = Some (logical ev)"
      "pressingRecords s' (GetPhysicalKey d sc ext) = Some (logical ev)" by simp_all
  next
    assume "type ev = kFlutterKeyEventTypeUp"
    with r show "pressingRecords s (GetPhysicalKey d sc ext) = Some (logical ev)"
      "pressingRecords s' (GetPhysicalKey d sc ext) = None" by simp_all
  }
qed

theorem press_state_table_witness:
  "KeyboardHookImpl sample_statics sample_idle 0x42 0x1E WM_KEYDOWN 0x62 False True 7
     (sample_engine\<lparr>pressingRecords := [0x00070004 \<mapsto> 0x61]\<rparr>) =
     Inr (projr (KeyboardHookImpl sample_statics sample_idle 0x42 0x1E WM_KEYDOWN 0x62 False True 7
                   (sample_engine\<lparr>pressingRecords := [0x00070004 \<mapsto> 0x61]\<rparr>)))
   \<and> 0 \<notin> ran (pressingRecords (sample_engine\<lparr>pressingRecords := [0x00070004 \<mapsto> 0x61]\<rparr>))
   \<and> GetLogicalKey sample_statics 0x42 False 0x1E = 0x62
   \<and> GetPhysicalKey sample_statics 0x1E False = 0x00070004
   \<and> (\<lparr>type = kFlutterKeyEventTypeRepeat, physical = 0x00070004, logical = 0x61,
        character = [0x62], synthesized = False\<rparr>, Some 2)
       \<in> set (sent_events (added (sample_engine\<lparr>pressingRecords := [0x00070004 \<mapsto> 0x61]\<rparr>)
            (projr (KeyboardHookImpl sample_statics sample_idle 0x42 0x1E WM_KEYDOWN 0x62 False True
                      7 (sample_engine\<lparr>pressingRecords := [0x00070004 \<mapsto> 0x61]\<rparr>)))))
   \<and> pressingRecords
        (projr (KeyboardHookImpl sample_statics sample_idle 0x42 0x1E WM_KEYDOWN 0x62 False True 7
                  (sample_engine\<lparr>pressingRecords := [0x00070004 \<mapsto> 0x61]\<rparr>))) 0x00070004 =
       Some 0x61"
proof -
  let ?s = "sample_engine\<lparr>pressingRecords := [0x00070004 \<mapsto> 0x61]\<rparr>"
  let ?k = "KeyboardHookImpl sample_statics sample_idle 0x42 0x1E WM_KEYDOWN 0x62 False True 7 ?s"
  let ?e = "\<lparr>type = kFlutterKeyEventTypeRepeat, physical = 0x00070004, logical = 0x61,
        character = [0x62], synthesized = False\<rparr>"
  have "\<not> isl ?k" by code_simp
  then have k: "?k = Inr (projr ?k)" by simp
  have h2: "0 \<notin> ran (pressingRecords ?s)" by simp
  have l: "GetLogicalKey sample_statics 0x42 False 0x1E = 0x62" by code_simp
  have h3: "GetLogicalKey sample_statics 0x42 False 0x1E \<noteq> 0" by (simp add: l)
  have ev: "sent_events (trace (projr ?k)) = [(?e, Some 2)]" by code_simp
  have ad: "added ?s (projr ?k) = trace (projr ?k)"
    by (simp add: added_def sample_engine_fresh)
  have m: "(?e, Some 2) \<in> set (sent_events (added ?s (projr ?k)))"
    by (simp only: ad ev) simp
  from press_state_table [OF k h2 h3] m
  have "type ?e = kFlutterKeyEventTypeRepeat \<longrightarrow>
          pressingRecords (projr ?k) (GetPhysicalKey sample_statics 0x1E False) = Some (logical ?e)"
    by blast
  then have c: "pressingRecords (projr ?k) 0x00070004 = Some 0x61"
    by (simp add: sample_physical_A)
  show ?thesis
    by (intro conjI) (rule k, rule h2, rule l, rule sample_physical_A, rule m, rule c)
qed

section \<open>Toggle synchronization of caps lock\<close>


end
